(* ===== verification/Prelude.thy ===== *)
theory Prelude
  imports Main "HOL-Library.Sublist" "HOL-Library.Multiset"
begin

text \<open>
  Shared vocabulary of the development: the named collections the component proofs draw on,
  the type of byte strings, the outcome of one turn of an interactive loop, and the list facts
  that several components use. Bytes are HOL characters (8 bits each), so a C string is the list
  of its bytes up to, and without, the terminating NUL.
\<close>

named_theorems cstr \<open>rules about C strings: prefix tests, searches, numbers in text\<close>
named_theorems storage_defs \<open>definitions of the storage operations\<close>
named_theorems handler_defs \<open>definitions of the request handlers\<close>

type_synonym bytes = string

text \<open>
  One turn of an interactive loop either goes on in a new state, leaves the loop in a final
  state, or is undefined behaviour in C (an access out of bounds, an argument outside a
  library function's domain).
\<close>

datatype 'a outcome = Next 'a | Leave 'a | Undefined

text \<open>The state an outcome carries, with a default for the undefined one.\<close>

fun outcome_defined :: "'a outcome \<Rightarrow> bool" where
  "outcome_defined (Next a) = True"
| "outcome_defined (Leave a) = True"
| "outcome_defined Undefined = False"

lemma takeWhile_neq_append [simp]: "c \<notin> set p \<Longrightarrow> takeWhile (\<lambda>x. x \<noteq> c) (p @ c # s) = p"
  by (induction p) auto

lemma dropWhile_neq_append [simp]: "c \<notin> set p \<Longrightarrow> dropWhile (\<lambda>x. x \<noteq> c) (p @ c # s) = c # s"
  by (induction p) auto

lemma takeWhile_neq_all: "c \<notin> set p \<Longrightarrow> takeWhile (\<lambda>x. x \<noteq> c) p = p"
  by (induction p) auto

lemma dropWhile_neq_all: "c \<notin> set p \<Longrightarrow> dropWhile (\<lambda>x. x \<noteq> c) p = []"
  by (induction p) auto

lemma filter_map_keep:
  "(\<And>x. x \<in> set xs \<Longrightarrow> P (f x) = P x) \<Longrightarrow> (\<And>x. x \<in> set xs \<Longrightarrow> P x \<Longrightarrow> f x = x) \<Longrightarrow>
   filter P (map f xs) = filter P xs"
  by (induction xs) auto

lemma sorted_wrt_filter_map:
  "sorted_wrt (\<lambda>a b. f a < f b) xs \<Longrightarrow> sorted_wrt (\<lambda>a b. f a < f b) (filter P xs)"
  by (rule sorted_wrt_filter)

text \<open>
  A loop \<open>while (1)\<close> that reads one input per turn, over a list of inputs: it is left (the rest of the
  inputs is the caller's), it runs into undefined behaviour, or the inputs are used up and it waits
  for more.
\<close>

fun run_turns :: "('i \<Rightarrow> 's \<Rightarrow> 's outcome) \<Rightarrow> 'i list \<Rightarrow> 's \<Rightarrow> 's outcome \<times> 'i list" where
  "run_turns turn [] s = (Next s, [])"
| "run_turns turn (i # is) s =
     (case turn i s of
        Next s' \<Rightarrow> run_turns turn is s'
      | Leave s' \<Rightarrow> (Leave s', is)
      | Undefined \<Rightarrow> (Undefined, is))"

lemma run_turns_rest: "length (snd (run_turns turn is s)) \<le> length is"
  by (induction "is" arbitrary: s) (auto split: outcome.split intro: le_SucI)

lemma run_turns_append:
  "run_turns turn is s = (Next s', r) \<Longrightarrow> run_turns turn (is @ js) s = run_turns turn js s'"
  by (induction "is" arbitrary: s) (auto split: outcome.splits)

text \<open>A property every turn keeps holds wherever the loop stops without undefined behaviour.\<close>

lemma run_turns_inv:
  assumes "\<And>i s s'. P s \<Longrightarrow> turn i s = Next s' \<or> turn i s = Leave s' \<Longrightarrow> P s'"
  shows "P s \<Longrightarrow> run_turns turn is s = (r, rest) \<Longrightarrow> r = Next s' \<or> r = Leave s' \<Longrightarrow> P s'"
proof (induction "is" arbitrary: s)
  case (Cons i "is")
  then show ?case using assms[of s i] by (auto split: outcome.splits)
qed auto

end
