(* ===== verification/CLib.thy ===== *)
theory CLib
  imports Prelude "HOL-Library.Word"
begin

text \<open>
  The parts of C and of its standard library that the program uses: the widths of \<open>int\<close> and
  \<open>long\<close> (32 and 64 bits, two's complement), \<open>strtol\<close>/\<open>atoi\<close>/\<open>atol\<close>, the \<open>%d\<close> and \<open>%ld\<close>
  conversions, \<open>snprintf\<close> with its truncation, \<open>strncmp\<close> as a prefix test, \<open>strchr\<close>,
  \<open>strtok_r\<close> with a one-character separator set, and \<open>size_t\<close> subtraction, \<open>memmove\<close> and
  \<open>realloc\<close> on a block of memory.
  The lemmas say that a printed number is read back, how long it can get, and what the string
  functions do on the shapes the wire protocol produces.
\<close>

subsection \<open>Integers of fixed width\<close>

definition c_int :: "int \<Rightarrow> int" where
  "c_int x = signed_take_bit 31 x"

definition c_long :: "int \<Rightarrow> int" where
  "c_long x = signed_take_bit 63 x"

definition fits_int :: "int \<Rightarrow> bool" where
  "fits_int x \<longleftrightarrow> -(2 ^ 31) \<le> x \<and> x < 2 ^ 31"

definition fits_long :: "int \<Rightarrow> bool" where
  "fits_long x \<longleftrightarrow> -(2 ^ 63) \<le> x \<and> x < 2 ^ 63"

lemma c_int_id [simp]: "fits_int x \<Longrightarrow> c_int x = x"
  by (simp add: c_int_def fits_int_def signed_take_bit_int_eq_self)

lemma c_long_id [simp]: "fits_long x \<Longrightarrow> c_long x = x"
  by (simp add: c_long_def fits_long_def signed_take_bit_int_eq_self)

lemma fits_int_long: "fits_int x \<Longrightarrow> fits_long x"
  by (simp add: fits_int_def fits_long_def)

lemma fits_int_c_int [simp]: "fits_int (c_int x)"
  unfolding c_int_def fits_int_def
  using signed_take_bit_int_greater_eq_minus_exp[of 31 x] signed_take_bit_int_less_exp[of 31 x]
  by simp

lemma fits_long_c_long [simp]: "fits_long (c_long x)"
  unfolding c_long_def fits_long_def
  using signed_take_bit_int_greater_eq_minus_exp[of 63 x] signed_take_bit_int_less_exp[of 63 x]
  by simp

subsection \<open>Characters\<close>

definition is_space :: "char \<Rightarrow> bool" where
  "is_space c \<longleftrightarrow> c = CHR '' '' \<or> (9 \<le> (of_char c :: nat) \<and> (of_char c :: nat) \<le> 13)"

definition is_digit :: "char \<Rightarrow> bool" where
  "is_digit c \<longleftrightarrow> 48 \<le> (of_char c :: nat) \<and> (of_char c :: nat) \<le> 57"

definition digit_val :: "char \<Rightarrow> nat" where
  "digit_val c = of_char c - 48"

definition digit_char :: "nat \<Rightarrow> char" where
  "digit_char n = char_of (48 + n)"

lemma of_digit_char: "d < 10 \<Longrightarrow> of_char (digit_char d) = 48 + d"
  by (simp add: digit_char_def)

lemma is_digit_digit_char [simp]: "d < 10 \<Longrightarrow> is_digit (digit_char d)"
  by (simp add: is_digit_def of_digit_char)

lemma digit_val_digit_char [simp]: "d < 10 \<Longrightarrow> digit_val (digit_char d) = d"
  by (simp add: digit_val_def of_digit_char)

lemma digit_not_space: "is_digit c \<Longrightarrow> \<not> is_space c"
  by (auto simp: is_digit_def is_space_def)

lemma digit_not_sign: "is_digit c \<Longrightarrow> c \<noteq> CHR ''-'' \<and> c \<noteq> CHR ''+'' \<and> c \<noteq> CHR '' ''"
  by (auto simp: is_digit_def)

lemma digit_char_numerals [simp]:
  "digit_char 0 = CHR ''0''" "digit_char (Suc 0) = CHR ''1''" "digit_char 2 = CHR ''2''"
  "digit_char 3 = CHR ''3''" "digit_char 4 = CHR ''4''" "digit_char 5 = CHR ''5''"
  "digit_char 6 = CHR ''6''" "digit_char 7 = CHR ''7''" "digit_char 8 = CHR ''8''"
  "digit_char 9 = CHR ''9''"
  by code_simp+

subsection \<open>Printing: \<open>%d\<close>, \<open>%ld\<close>, \<open>snprintf\<close>\<close>

fun show_nat :: "nat \<Rightarrow> string" where
  "show_nat n = (if n < 10 then [digit_char n]
                 else show_nat (n div 10) @ [digit_char (n mod 10)])"

declare show_nat.simps [simp del]

definition show_int :: "int \<Rightarrow> string" where
  "show_int x = (if x < 0 then CHR ''-'' # show_nat (nat (- x)) else show_nat (nat x))"

text \<open>What \<open>snprintf (dst, n, ...)\<close> leaves in \<open>dst\<close> when the full text is \<open>s\<close>.\<close>

definition snprintf :: "nat \<Rightarrow> string \<Rightarrow> string" where
  "snprintf n s = take (n - 1) s"

lemma snprintf_fits [cstr]: "length s < n \<Longrightarrow> snprintf n s = s"
  by (simp add: snprintf_def)

lemma show_nat_nonempty [simp]: "show_nat n \<noteq> []"
  by (subst show_nat.simps) simp

lemma show_nat_digits: "c \<in> set (show_nat n) \<Longrightarrow> is_digit c"
proof (induction n rule: show_nat.induct)
  case (1 n)
  then show ?case
    by (subst (asm) show_nat.simps) (auto split: if_splits)
qed

lemma show_int_nonempty [simp]: "show_int x \<noteq> []"
  by (simp add: show_int_def)

lemma show_int_chars: "c \<in> set (show_int x) \<Longrightarrow> is_digit c \<or> c = CHR ''-''"
  by (auto simp: show_int_def dest: show_nat_digits split: if_splits)

lemma show_int_no_space: "CHR '' '' \<notin> set (show_int x)"
  by (auto dest: show_int_chars digit_not_sign)

lemma show_nat_length: "n < 10 ^ k \<Longrightarrow> 0 < k \<Longrightarrow> length (show_nat n) \<le> k"
proof (induction n arbitrary: k rule: show_nat.induct)
  case (1 n)
  show ?case
  proof (cases "n < 10")
    case True
    then show ?thesis using "1.prems" by (subst show_nat.simps) simp
  next
    case False
    obtain m where k: "k = Suc m"
      using "1.prems"(2) by (cases k) auto
    with False "1.prems"(1) have m: "0 < m"
      by (cases m) auto
    have "n div 10 < 10 ^ m"
      using "1.prems"(1) k by (simp add: less_mult_imp_div_less mult.commute)
    then have "length (show_nat (n div 10)) \<le> m"
      using "1.IH" False m by simp
    with False k show ?thesis by (subst show_nat.simps) simp
  qed
qed

lemma show_int_length_nonneg: "0 \<le> x \<Longrightarrow> x < 2 ^ 31 \<Longrightarrow> length (show_int x) \<le> 10"
  using show_nat_length[of "nat x" 10] by (simp add: show_int_def)

lemma show_int_length_int: "fits_int x \<Longrightarrow> length (show_int x) \<le> 11"
  using show_nat_length[of "nat x" 10] show_nat_length[of "nat (- x)" 10]
  unfolding show_int_def fits_int_def by (cases "x < 0") (simp_all add: nat_less_iff)

lemma show_int_length_long: "fits_long x \<Longrightarrow> length (show_int x) \<le> 20"
  using show_nat_length[of "nat x" 19] show_nat_length[of "nat (- x)" 19]
  unfolding show_int_def fits_long_def by (cases "x < 0") (simp_all add: nat_less_iff)

subsection \<open>Reading: \<open>strtol\<close>, \<open>atol\<close>, \<open>atoi\<close>\<close>

text \<open>
  White space, an optional sign, then digits; the value saturates at the ends of \<open>long\<close>.
  \<open>atoi\<close> is the conversion of that \<open>long\<close> to \<open>int\<close>, as glibc and the BSD libc define it.
\<close>

fun digits_val :: "nat \<Rightarrow> string \<Rightarrow> nat" where
  "digits_val acc [] = acc"
| "digits_val acc (c # cs) = (if is_digit c then digits_val (10 * acc + digit_val c) cs else acc)"

definition clamp_long :: "int \<Rightarrow> int" where
  "clamp_long x = max (-(2 ^ 63)) (min (2 ^ 63 - 1) x)"

definition strtol :: "string \<Rightarrow> int" where
  "strtol s = (case dropWhile is_space s of
      [] \<Rightarrow> 0
    | c # cs \<Rightarrow> if c = CHR ''-'' then clamp_long (- int (digits_val 0 cs))
                else if c = CHR ''+'' then clamp_long (int (digits_val 0 cs))
                else clamp_long (int (digits_val 0 (c # cs))))"

definition atol :: "string \<Rightarrow> int" where
  "atol s = strtol s"

definition atoi :: "string \<Rightarrow> int" where
  "atoi s = c_int (strtol s)"

text \<open>A text whose first character is no digit ends the number before it.\<close>

definition no_digit_head :: "string \<Rightarrow> bool" where
  "no_digit_head s \<longleftrightarrow> (case s of [] \<Rightarrow> True | c # _ \<Rightarrow> \<not> is_digit c)"

lemma no_digit_head_simps [simp]:
  "no_digit_head []" "no_digit_head (c # cs) = (\<not> is_digit c)"
  by (simp_all add: no_digit_head_def)

lemma not_digit_space [simp]: "\<not> is_digit (CHR '' '')"
  by (simp add: is_digit_def)

lemma digits_val_stop: "no_digit_head s \<Longrightarrow> digits_val acc s = acc"
  by (cases s) auto

lemma digits_val_append:
  "\<forall>c \<in> set ds. is_digit c \<Longrightarrow> digits_val acc (ds @ s) = digits_val (digits_val acc ds) s"
  by (induction ds arbitrary: acc) auto

lemma digits_val_show_nat: "digits_val 0 (show_nat n) = n"
proof (induction n rule: show_nat.induct)
  case (1 n)
  show ?case
  proof (cases "n < 10")
    case True
    then show ?thesis by (subst show_nat.simps) simp
  next
    case False
    have "\<forall>c \<in> set (show_nat (n div 10)). is_digit c"
      by (simp add: show_nat_digits)
    with False show ?thesis
      by (subst show_nat.simps) (simp add: digits_val_append "1.IH")
  qed
qed

lemma digits_val_show_nat_append:
  "no_digit_head s \<Longrightarrow> digits_val 0 (show_nat n @ s) = n"
  using digits_val_append[of "show_nat n" 0 s]
  by (simp add: show_nat_digits digits_val_show_nat digits_val_stop)

lemma clamp_long_id: "fits_long x \<Longrightarrow> clamp_long x = x"
  by (simp add: clamp_long_def fits_long_def)

lemma fits_long_strtol: "fits_long (strtol s)"
  by (auto simp: strtol_def clamp_long_def fits_long_def split: list.split)

lemma show_nat_Cons: "\<exists>c cs. show_nat n = c # cs \<and> is_digit c"
proof -
  obtain c cs where "show_nat n = c # cs"
    using show_nat_nonempty[of n] by (cases "show_nat n") blast+
  then show ?thesis using show_nat_digits[of c n] by auto
qed

lemma strtol_show_nat:
  assumes "no_digit_head s"
  shows "strtol (show_nat n @ s) = clamp_long (int n)"
proof -
  obtain c cs where c: "show_nat n = c # cs" "is_digit c"
    using show_nat_Cons by blast
  then have "dropWhile is_space (show_nat n @ s) = c # (cs @ s)"
    by (simp add: digit_not_space)
  moreover have "digits_val 0 (c # (cs @ s)) = n"
    using digits_val_show_nat_append[OF assms, of n] c by simp
  ultimately show ?thesis
    using digit_not_sign[OF c(2)] by (simp add: strtol_def)
qed

lemma strtol_show_int:
  assumes "fits_long x" and "no_digit_head s"
  shows "strtol (show_int x @ s) = x"
proof (cases "x < 0")
  case True
  then have "strtol (show_int x @ s) = clamp_long (- int (digits_val 0 (show_nat (nat (- x)) @ s)))"
    by (simp add: show_int_def strtol_def is_space_def)
  also have "\<dots> = x"
    using True assms by (simp add: digits_val_show_nat_append clamp_long_id)
  finally show ?thesis .
next
  case False
  then show ?thesis
    using assms by (simp add: show_int_def strtol_show_nat clamp_long_id)
qed

lemma atol_show_int [cstr]:
  "fits_long x \<Longrightarrow> no_digit_head s \<Longrightarrow> atol (show_int x @ s) = x"
  by (simp add: atol_def strtol_show_int)

lemma atoi_show_int [cstr]:
  "fits_int x \<Longrightarrow> no_digit_head s \<Longrightarrow> atoi (show_int x @ s) = x"
  by (simp add: atoi_def strtol_show_int fits_int_long)

lemma atol_show_int_end [cstr]: "fits_long x \<Longrightarrow> atol (show_int x) = x"
  using atol_show_int[of x "[]"] by simp

lemma atoi_show_int_end [cstr]: "fits_int x \<Longrightarrow> atoi (show_int x) = x"
  using atoi_show_int[of x "[]"] by simp

lemma fits_int_atoi [simp]: "fits_int (atoi s)"
  by (simp add: atoi_def)

lemma fits_long_atol [simp]: "fits_long (atol s)"
  by (simp add: atol_def fits_long_strtol)

subsection \<open>Searching and splitting strings\<close>

text \<open>\<open>strncmp (s, p, strlen p) == 0\<close> with the literal \<open>p\<close>.\<close>

definition starts_with :: "string \<Rightarrow> string \<Rightarrow> bool" where
  "starts_with p s \<longleftrightarrow> take (length p) s = p"

text \<open>\<open>strchr\<close> as the offset of the first occurrence, \<open>None\<close> for the null pointer.\<close>

definition strchr :: "string \<Rightarrow> char \<Rightarrow> nat option" where
  "strchr s c = (if c \<in> set s then Some (length (takeWhile (\<lambda>x. x \<noteq> c) s)) else None)"

text \<open>\<open>strtok_r\<close> for one separator character: the token and what is left after it.\<close>

definition strtok_r :: "char \<Rightarrow> string \<Rightarrow> (string \<times> string) option" where
  "strtok_r sep s =
     (let t = dropWhile (\<lambda>x. x = sep) s in
      if t = [] then None
      else Some (takeWhile (\<lambda>x. x \<noteq> sep) t, drop 1 (dropWhile (\<lambda>x. x \<noteq> sep) t)))"

text \<open>The bytes of a buffer up to its first NUL.\<close>

definition c_str :: "bytes \<Rightarrow> string" where
  "c_str s = takeWhile (\<lambda>c. c \<noteq> CHR 0x00) s"

lemma starts_with_append [cstr, simp]: "starts_with p (p @ s)"
  by (simp add: starts_with_def)

lemma starts_with_iff: "starts_with p s \<longleftrightarrow> (\<exists>t. s = p @ t)"
  by (metis append_eq_conv_conj append_take_drop_id starts_with_def)

lemma starts_with_Cons [simp]:
  "starts_with [] s" "starts_with (a # p) (b # s) = (a = b \<and> starts_with p s)"
  "\<not> starts_with (a # p) []"
  by (auto simp: starts_with_def)

lemma starts_withE:
  assumes "starts_with p s" obtains t where "s = p @ t"
  using assms by (auto simp: starts_with_iff)

lemma strchr_None [cstr]: "c \<notin> set s \<Longrightarrow> strchr s c = None"
  by (simp add: strchr_def)

lemma strchr_append [cstr]: "c \<notin> set p \<Longrightarrow> strchr (p @ c # s) c = Some (length p)"
  by (simp add: strchr_def)

lemma strchr_Some_split:
  assumes "strchr s c = Some k"
  shows "s = take k s @ c # drop (Suc k) s \<and> c \<notin> set (take k s) \<and> k < length s"
proof -
  have c: "c \<in> set s" and k: "k = length (takeWhile (\<lambda>x. x \<noteq> c) s)"
    using assms by (auto simp: strchr_def split: if_splits)
  from c obtain ys zs where s: "s = ys @ c # zs" "c \<notin> set ys"
    by (auto dest: split_list_first)
  then have "k = length ys" using k by simp
  with s show ?thesis by simp
qed

lemma strtok_r_token [cstr]:
  "tok \<noteq> [] \<Longrightarrow> sep \<notin> set tok \<Longrightarrow> strtok_r sep (tok @ sep # s) = Some (tok, s)"
proof -
  assume tok: "tok \<noteq> []" "sep \<notin> set tok"
  then have "dropWhile (\<lambda>x. x = sep) (tok @ sep # s) = tok @ sep # s"
    by (cases tok) auto
  with tok show ?thesis by (simp add: strtok_r_def Let_def)
qed

lemma strtok_r_last [cstr]:
  "tok \<noteq> [] \<Longrightarrow> sep \<notin> set tok \<Longrightarrow> strtok_r sep tok = Some (tok, [])"
  by (cases tok) (auto simp: strtok_r_def takeWhile_neq_all dropWhile_neq_all)

lemma strtok_r_empty [cstr, simp]: "strtok_r sep [] = None"
  by (simp add: strtok_r_def)

lemma c_str_id [cstr]: "CHR 0x00 \<notin> set s \<Longrightarrow> c_str s = s"
  by (simp add: c_str_def takeWhile_neq_all)

lemma c_str_no_nul [simp]: "CHR 0x00 \<notin> set (c_str s)"
  by (auto simp: c_str_def dest: set_takeWhileD)

subsection \<open>Memory blocks\<close>

text \<open>
  A block is the list of its bytes, as long as the allocation. \<open>size_sub\<close> is the subtraction
  of \<open>size_t\<close>, which wraps; \<open>memmove\<close> and a byte store give \<open>None\<close> where C has an access
  outside the block. \<open>realloc\<close> answers the null pointer (\<open>None\<close>) or a block whose new bytes
  are whatever the allocator left there (\<open>junk\<close>).
\<close>

definition size_sub :: "nat \<Rightarrow> nat \<Rightarrow> nat" where
  "size_sub a b = (if b \<le> a then a - b else 2 ^ 64 + a - b)"

definition memmove :: "bytes \<Rightarrow> nat \<Rightarrow> nat \<Rightarrow> nat \<Rightarrow> bytes option" where
  "memmove m dst src n =
     (if dst + n \<le> length m \<and> src + n \<le> length m
      then Some (take dst m @ take n (drop src m) @ drop (dst + n) m) else None)"

definition store_byte :: "bytes \<Rightarrow> nat \<Rightarrow> char \<Rightarrow> bytes option" where
  "store_byte m i c = (if i < length m then Some (m[i := c]) else None)"

definition realloc :: "(nat \<Rightarrow> char) option \<Rightarrow> bytes \<Rightarrow> nat \<Rightarrow> bytes option" where
  "realloc answer m n = (case answer of
      None \<Rightarrow> None
    | Some junk \<Rightarrow> Some (take n m @ map junk [length m..<n]))"

lemma size_sub_le [simp]: "b \<le> a \<Longrightarrow> size_sub a b = a - b"
  by (simp add: size_sub_def)

lemma length_realloc: "realloc a m n = Some m' \<Longrightarrow> length m' = n"
  by (auto simp: realloc_def split: option.splits)

lemma take_realloc: "realloc a m n = Some m' \<Longrightarrow> k \<le> length m \<Longrightarrow> k \<le> n \<Longrightarrow> take k m' = take k m"
  by (auto simp: realloc_def split: option.splits)

lemma length_memmove: "memmove m d s n = Some m' \<Longrightarrow> length m' = length m"
  by (auto simp: memmove_def split: if_splits)

end
