(* ===== verification/Net.thy ===== *)
theory Net
  imports CLib
begin

text \<open>
  client/net.c: the client's half of the wire dialect. One function per verb, each a complete
  request and reply on the connection. The protocol library (sealing, line framing) is not part
  of the repository: it is the parameter \<open>'w proto\<close>, a record of the calls net.c makes, over the
  state \<open>'w\<close> of the world behind the connection (socket, peer, entropy). The connection's keys are
  those the library functions close over.
\<close>

subsection \<open>The protocol library\<close>

text \<open>
  A send returns the C result; a receive returns the line, or \<open>None\<close> for a negative result or a
  null pointer. \<open>pr_alloc n\<close> says whether an allocation of \<open>n\<close> elements succeeds.
\<close>

record 'w proto =
  pr_seal :: "string \<Rightarrow> 'w \<Rightarrow> string option \<times> 'w"
  pr_unseal :: "string \<Rightarrow> bytes option"
  pr_send_line :: "string \<Rightarrow> 'w \<Rightarrow> int \<times> 'w"
  pr_send_prefixed :: "string \<Rightarrow> string \<Rightarrow> 'w \<Rightarrow> int \<times> 'w"
  pr_recv_line :: "nat \<Rightarrow> 'w \<Rightarrow> string option \<times> 'w"
  pr_recv_line_dyn :: "'w \<Rightarrow> string option \<times> 'w"
  pr_alloc :: "nat \<Rightarrow> 'w \<Rightarrow> bool"

record diary_entry =
  de_id :: int
  de_timestamp :: int
  de_text :: "bytes option"

subsection \<open>POST, UPDATE, DELETE\<close>

definition post_prefix :: "int \<Rightarrow> string" where
  "post_prefix timestamp =
     (if timestamp > 0 then snprintf 32 (''POST '' @ show_int timestamp @ '' '') else ''POST '')"

definition net_post_entry :: "'w proto \<Rightarrow> string \<Rightarrow> int \<Rightarrow> 'w \<Rightarrow> int \<times> 'w" where
  "net_post_entry P text timestamp w0 =
     (case pr_seal P (c_str text) w0 of
        (None, w1) \<Rightarrow> (-1, w1)
      | (Some b64, w1) \<Rightarrow>
          let (rc, w2) = pr_send_prefixed P (post_prefix timestamp) b64 w1 in
          if rc \<noteq> 0 then (-1, w2)
          else
            (case pr_recv_line P 64 w2 of
               (None, w3) \<Rightarrow> (-1, w3)
             | (Some line, w3) \<Rightarrow>
                 if starts_with ''OK '' line then (atoi (drop 3 line), w3) else (-1, w3)))"

definition net_update_entry :: "'w proto \<Rightarrow> int \<Rightarrow> string \<Rightarrow> 'w \<Rightarrow> int \<times> 'w" where
  "net_update_entry P id' text w0 =
     (case pr_seal P (c_str text) w0 of
        (None, w1) \<Rightarrow> (-1, w1)
      | (Some b64, w1) \<Rightarrow>
          let prefix = snprintf 32 (''UPDATE '' @ show_int id' @ '' '');
              (rc, w2) = pr_send_prefixed P prefix b64 w1 in
          if rc \<noteq> 0 then (-1, w2)
          else
            (case pr_recv_line P 64 w2 of
               (None, w3) \<Rightarrow> (-1, w3)
             | (Some line, w3) \<Rightarrow> (if line = ''OK'' then id' else -1, w3)))"

definition net_delete_entry :: "'w proto \<Rightarrow> int \<Rightarrow> 'w \<Rightarrow> int \<times> 'w" where
  "net_delete_entry P id' w0 =
     (let cmd = snprintf 32 (''DELETE '' @ show_int id');
          (rc, w1) = pr_send_line P cmd w0 in
      if rc < 0 then (-1, w1)
      else
        (case pr_recv_line P 64 w1 of
           (None, w2) \<Rightarrow> (-1, w2)
         | (Some line, w2) \<Rightarrow> (if line = ''OK'' then 0 else -1, w2)))"

subsection \<open>GET\<close>

definition entry_cmp_newest_first :: "diary_entry \<Rightarrow> diary_entry \<Rightarrow> int" where
  "entry_cmp_newest_first ea eb =
     (if de_timestamp ea \<noteq> de_timestamp eb
      then (if de_timestamp ea < de_timestamp eb then 1 else -1)
      else c_int (de_id eb - de_id ea))"

text \<open>
  \<open>qsort\<close> of the C library, as insertion by the comparator. C leaves the order of elements that
  compare equal open; entries of one user have distinct ids, so none do.
\<close>

fun cmp_insert :: "('a \<Rightarrow> 'a \<Rightarrow> int) \<Rightarrow> 'a \<Rightarrow> 'a list \<Rightarrow> 'a list" where
  "cmp_insert cmp x [] = [x]"
| "cmp_insert cmp x (y # ys) = (if cmp x y \<le> 0 then x # y # ys else y # cmp_insert cmp x ys)"

definition qsort :: "('a \<Rightarrow> 'a \<Rightarrow> int) \<Rightarrow> 'a list \<Rightarrow> 'a list" where
  "qsort cmp xs = foldr (cmp_insert cmp) xs []"

text \<open>One row of the reply: the body of the loop after the line was read.\<close>

definition parse_row :: "'w proto \<Rightarrow> string \<Rightarrow> 'w \<Rightarrow> diary_entry option" where
  "parse_row P line w =
     (case strtok_r (CHR '' '') line of
        None \<Rightarrow> None
      | Some (sid, sv1) \<Rightarrow>
          (case strtok_r (CHR '' '') sv1 of
             None \<Rightarrow> None
           | Some (sts, sv2) \<Rightarrow>
               (case strtok_r (CHR '' '') sv2 of
                  None \<Rightarrow> None
                | Some (sdat, sv3) \<Rightarrow>
                    Some \<lparr>de_id = atoi sid, de_timestamp = atol sts,
                          de_text = (case pr_unseal P sdat of
                              Some plain \<Rightarrow> Some plain
                            | None \<Rightarrow> if pr_alloc P 20 w then Some ''[could not decrypt]''
                                      else None)\<rparr>)))"

fun recv_rows :: "'w proto \<Rightarrow> nat \<Rightarrow> 'w \<Rightarrow> diary_entry list option \<times> 'w" where
  "recv_rows P 0 w = (Some [], w)"
| "recv_rows P (Suc k) w =
     (case pr_recv_line_dyn P w of
        (None, w1) \<Rightarrow> (None, w1)
      | (Some line, w1) \<Rightarrow>
          (case parse_row P line w1 of
             None \<Rightarrow> (None, w1)
           | Some e \<Rightarrow>
               (case recv_rows P k w1 of
                  (None, w2) \<Rightarrow> (None, w2)
                | (Some es, w2) \<Rightarrow> (Some (e # es), w2))))"

text \<open>
  \<open>None\<close> is the result -1, which leaves the caller's list alone; \<open>Some es\<close> is 0 with the array
  \<open>es\<close> and its length stored.
\<close>

definition net_get_entries :: "'w proto \<Rightarrow> 'w \<Rightarrow> diary_entry list option \<times> 'w" where
  "net_get_entries P w0 =
     (let (rc, w1) = pr_send_line P ''GET'' w0 in
      if rc < 0 then (None, w1)
      else
        (case pr_recv_line P 64 w1 of
           (None, w2) \<Rightarrow> (None, w2)
         | (Some hdr, w2) \<Rightarrow>
             if \<not> starts_with ''ENTRIES '' hdr then (None, w2)
             else
               let n = atoi (drop 8 hdr) in
               if n \<le> 0 then (Some [], w2)
               else if \<not> pr_alloc P (nat n) w2 then (None, w2)
               else
                 (case recv_rows P (nat n) w2 of
                    (None, w3) \<Rightarrow> (None, w3)
                  | (Some arr, w3) \<Rightarrow> (Some (qsort entry_cmp_newest_first arr), w3))))"

subsection \<open>Sorting\<close>

lemma mset_cmp_insert [simp]: "mset (cmp_insert cmp x xs) = add_mset x (mset xs)"
  by (induction xs) auto

lemma mset_qsort [simp]: "mset (qsort cmp xs) = mset xs"
  by (induction xs) (auto simp: qsort_def)

lemma set_qsort [simp]: "set (qsort cmp xs) = set xs"
  by (metis mset_qsort set_mset_mset)

lemma length_qsort [simp]: "length (qsort cmp xs) = length xs"
  by (metis mset_qsort size_mset)

text \<open>A comparator that is total and transitive on a set of elements.\<close>

definition cmp_order_on :: "'a set \<Rightarrow> ('a \<Rightarrow> 'a \<Rightarrow> int) \<Rightarrow> bool" where
  "cmp_order_on A cmp \<longleftrightarrow>
     (\<forall>a \<in> A. \<forall>b \<in> A. \<not> cmp a b \<le> 0 \<longrightarrow> cmp b a \<le> 0) \<and>
     (\<forall>a \<in> A. \<forall>b \<in> A. \<forall>c \<in> A. cmp a b \<le> 0 \<longrightarrow> cmp b c \<le> 0 \<longrightarrow> cmp a c \<le> 0)"

lemma cmp_order_on_total:
  "cmp_order_on A cmp \<Longrightarrow> a \<in> A \<Longrightarrow> b \<in> A \<Longrightarrow> \<not> cmp a b \<le> 0 \<Longrightarrow> cmp b a \<le> 0"
  unfolding cmp_order_on_def by blast

lemma cmp_order_on_trans:
  "cmp_order_on A cmp \<Longrightarrow> a \<in> A \<Longrightarrow> b \<in> A \<Longrightarrow> c \<in> A \<Longrightarrow> cmp a b \<le> 0 \<Longrightarrow> cmp b c \<le> 0 \<Longrightarrow>
   cmp a c \<le> 0"
  unfolding cmp_order_on_def by blast

lemma cmp_order_on_subset: "cmp_order_on A cmp \<Longrightarrow> B \<subseteq> A \<Longrightarrow> cmp_order_on B cmp"
  unfolding cmp_order_on_def by blast

lemma set_cmp_insert [simp]: "set (cmp_insert cmp x xs) = insert x (set xs)"
  by (metis mset_cmp_insert set_mset_add_mset_insert set_mset_mset)

lemma sorted_cmp_insert:
  "cmp_order_on (insert x (set xs)) cmp \<Longrightarrow> sorted_wrt (\<lambda>a b. cmp a b \<le> 0) xs \<Longrightarrow>
   sorted_wrt (\<lambda>a b. cmp a b \<le> 0) (cmp_insert cmp x xs)"
proof (induction xs)
  case Nil
  show ?case by simp
next
  case (Cons y ys)
  note ord = Cons.prems(1)
  show ?case
  proof (cases "cmp x y \<le> 0")
    case True
    have "cmp x z \<le> 0" if "z \<in> set ys" for z
      using cmp_order_on_trans[OF ord, of x y z] Cons.prems(2) True that by simp
    with True Cons.prems(2) show ?thesis by simp
  next
    case False
    then have "cmp y x \<le> 0" using cmp_order_on_total[OF ord, of x y] by simp
    moreover have "sorted_wrt (\<lambda>a b. cmp a b \<le> 0) (cmp_insert cmp x ys)"
      using Cons.prems(2) cmp_order_on_subset[OF ord, of "insert x (set ys)"]
      by (intro Cons.IH) auto
    ultimately show ?thesis using False Cons.prems(2) by simp
  qed
qed

lemma sorted_qsort:
  "cmp_order_on (set xs) cmp \<Longrightarrow> sorted_wrt (\<lambda>a b. cmp a b \<le> 0) (qsort cmp xs)"
proof (induction xs)
  case Nil
  show ?case by (simp add: qsort_def)
next
  case (Cons x xs)
  have "sorted_wrt (\<lambda>a b. cmp a b \<le> 0) (qsort cmp xs)"
    using cmp_order_on_subset[OF Cons.prems, of "set xs"] by (intro Cons.IH) auto
  then have "sorted_wrt (\<lambda>a b. cmp a b \<le> 0) (cmp_insert cmp x (qsort cmp xs))"
    using Cons.prems by (intro sorted_cmp_insert) simp
  then show ?case by (simp add: qsort_def)
qed

text \<open>
  The order the comparator stands for, on entries whose ids are non-negative ints: newest first,
  ties by the higher id.
\<close>

definition newer_first :: "diary_entry \<Rightarrow> diary_entry \<Rightarrow> bool" where
  "newer_first a b \<longleftrightarrow> de_timestamp b < de_timestamp a \<or>
     (de_timestamp a = de_timestamp b \<and> de_id b \<le> de_id a)"

definition plain_id :: "diary_entry \<Rightarrow> bool" where
  "plain_id e \<longleftrightarrow> 0 \<le> de_id e \<and> de_id e < 2 ^ 31"

lemma entry_cmp_iff:
  assumes "plain_id a" and "plain_id b"
  shows "entry_cmp_newest_first a b \<le> 0 \<longleftrightarrow> newer_first a b"
proof -
  have "fits_int (de_id b - de_id a)"
    using assms by (auto simp: plain_id_def fits_int_def)
  then show ?thesis by (auto simp: entry_cmp_newest_first_def newer_first_def)
qed

lemma entry_cmp_order: "\<forall>e \<in> A. plain_id e \<Longrightarrow> cmp_order_on A entry_cmp_newest_first"
  unfolding cmp_order_on_def
  by (simp add: entry_cmp_iff) (auto simp: newer_first_def)

lemma newest_first_sorted:
  assumes "\<forall>e \<in> set es. plain_id e"
  shows "sorted_wrt newer_first (qsort entry_cmp_newest_first es)"
proof -
  have "sorted_wrt (\<lambda>a b. entry_cmp_newest_first a b \<le> 0) (qsort entry_cmp_newest_first es)"
    using assms by (intro sorted_qsort entry_cmp_order)
  then show ?thesis
    by (rule sorted_wrt_mono_rel[rotated]) (use assms entry_cmp_iff in auto)
qed

end
