(* ===== verification/Text.thy ===== *)
theory Text
  imports CLib
begin

text \<open>
  Text on the screen (\<open>client/ui.c\<close>): UTF-8 characters in a byte buffer, the visual position of a
  buffer index (\<open>get_vpos\<close>), the index of a visual position (\<open>vpos_to_idx\<close>) and the loop that puts the
  characters into a window. A line wraps at column \<open>cols - 1\<close>.

  Rows and columns are C ints in the code; here they are unbounded, since a buffer below 2 GiB keeps
  them in range. A byte of the buffer is read with \<open>!\<close> only below the length of the text.
\<close>

unbundle bit_operations_syntax

subsection \<open>UTF-8\<close>

definition u8_is_cont :: "char \<Rightarrow> bool" where
  "u8_is_cont c \<longleftrightarrow> (of_char c :: 8 word) AND 0xC0 = 0x80"

function u8_len_from :: "bytes \<Rightarrow> nat \<Rightarrow> nat \<Rightarrow> nat \<Rightarrow> nat" where
  "u8_len_from buf len i n =
     (if i + n < len \<and> u8_is_cont (buf ! (i + n)) then u8_len_from buf len i (n + 1) else n)"
  by pat_completeness auto
termination by (relation "measure (\<lambda>(buf, len, i, n). len - (i + n))") auto

declare u8_len_from.simps [simp del]

definition u8_char_len :: "bytes \<Rightarrow> nat \<Rightarrow> nat \<Rightarrow> nat" where
  "u8_char_len buf len i = u8_len_from buf len i 1"

lemma u8_len_from_spec:
  "n \<le> u8_len_from buf len i n \<and>
   (\<forall>k. n \<le> k \<and> k < u8_len_from buf len i n \<longrightarrow> i + k < len \<and> u8_is_cont (buf ! (i + k))) \<and>
   \<not> (i + u8_len_from buf len i n < len \<and> u8_is_cont (buf ! (i + u8_len_from buf len i n)))"
proof (induction buf len i n rule: u8_len_from.induct)
  case (1 buf len i n)
  show ?case
  proof (cases "i + n < len \<and> u8_is_cont (buf ! (i + n))")
    case True
    then have e: "u8_len_from buf len i n = u8_len_from buf len i (n + 1)"
      by (subst u8_len_from.simps) simp
    have "i + k < len \<and> u8_is_cont (buf ! (i + k))"
      if "n \<le> k" "k < u8_len_from buf len i (n + 1)" for k
      using 1[OF True] True that by (cases "k = n") auto
    then show ?thesis using 1[OF True] unfolding e by auto
  next
    case False
    then have "u8_len_from buf len i n = n" by (subst u8_len_from.simps) auto
    with False show ?thesis by auto
  qed
qed

text \<open>A character is at least one byte, then the continuation bytes after it, and they end before \<open>len\<close>.\<close>

lemma u8_char_len_pos [simp]: "1 \<le> u8_char_len buf len i" "0 < u8_char_len buf len i"
  using u8_len_from_spec[of 1 buf len i] by (simp_all add: u8_char_len_def)

lemma u8_char_len_cont:
  "0 < k \<Longrightarrow> k < u8_char_len buf len i \<Longrightarrow> i + k < len \<and> u8_is_cont (buf ! (i + k))"
  using u8_len_from_spec[of 1 buf len i] by (simp add: u8_char_len_def)

lemma u8_char_len_end:
  "i + u8_char_len buf len i < len \<Longrightarrow> \<not> u8_is_cont (buf ! (i + u8_char_len buf len i))"
  using u8_len_from_spec[of 1 buf len i] by (auto simp: u8_char_len_def)

lemma u8_char_len_bound: "i < len \<Longrightarrow> i + u8_char_len buf len i \<le> len"
  using u8_char_len_cont[of "u8_char_len buf len i - 1" buf len i]
  by (cases "u8_char_len buf len i = 1") (auto simp: neq_iff dest: order.strict_trans1)

subsection \<open>Visual positions\<close>

text \<open>
  What one character that is not a continuation byte does to the row and the column. The same lines
  stand in \<open>get_vpos\<close>, in \<open>vpos_to_idx\<close>, in the two drawing loops and in the row count of the viewer.
\<close>

definition wrap_step :: "int \<Rightarrow> char \<Rightarrow> int \<times> int \<Rightarrow> int \<times> int" where
  "wrap_step cols ch p =
     (let (r, c) = p in
      if ch = CHR 0x0A \<or> c \<ge> cols - 1
      then (if ch = CHR 0x0A then (r + 1, 0) else (r + 1, 1))
      else (r, c + 1))"

function vpos_from :: "bytes \<Rightarrow> nat \<Rightarrow> nat \<Rightarrow> int \<Rightarrow> nat \<Rightarrow> int \<times> int \<Rightarrow> int \<times> int" where
  "vpos_from buf len cursor cols i p =
     (if i < cursor \<and> i < len
      then (if u8_is_cont (buf ! i) then vpos_from buf len cursor cols (i + 1) p
            else vpos_from buf len cursor cols (i + 1) (wrap_step cols (buf ! i) p))
      else p)"
  by pat_completeness auto
termination by (relation "measure (\<lambda>(buf, len, cursor, cols, i, p). len - i)") auto

declare vpos_from.simps [simp del]

definition get_vpos :: "bytes \<Rightarrow> nat \<Rightarrow> nat \<Rightarrow> int \<Rightarrow> int \<times> int" where
  "get_vpos buf len cursor cols = vpos_from buf len cursor cols 0 (0, 0)"

function idx_from :: "bytes \<Rightarrow> nat \<Rightarrow> int \<Rightarrow> int \<Rightarrow> int \<Rightarrow> nat \<Rightarrow> int \<times> int \<Rightarrow> nat" where
  "idx_from buf len cols tvr tvc i p =
     (let (r, c) = p in
      if i \<le> len then
        if i < len \<and> u8_is_cont (buf ! i) then idx_from buf len cols tvr tvc (i + 1) p
        else if r = tvr \<and> c = tvc then i
        else if i = len then i
        else if (buf ! i = CHR 0x0A \<or> c \<ge> cols - 1) \<and> r = tvr then i
        else idx_from buf len cols tvr tvc (i + 1) (wrap_step cols (buf ! i) p)
      else len)"
  by pat_completeness auto
termination by (relation "measure (\<lambda>(buf, len, cols, tvr, tvc, i, p). Suc len - i)") auto

declare idx_from.simps [simp del]

definition vpos_to_idx :: "bytes \<Rightarrow> nat \<Rightarrow> int \<Rightarrow> int \<Rightarrow> int \<Rightarrow> nat" where
  "vpos_to_idx buf len cols tvr tvc = idx_from buf len cols tvr tvc 0 (0, 0)"

subsection \<open>Drawing\<close>

text \<open>
  The drawing loop, as the list of its calls \<open>mvwaddnstr(win, wr, vcol, text + i, clen)\<close>; \<open>text_rows\<close>
  of the window are rows 1 to \<open>rows - 2\<close> and the first one shows row \<open>vtop\<close> of the text.
\<close>

type_synonym cell = "int \<times> int \<times> bytes"

function draw_from :: "bytes \<Rightarrow> nat \<Rightarrow> int \<Rightarrow> int \<Rightarrow> int \<Rightarrow> nat \<Rightarrow> int \<times> int \<Rightarrow> cell list" where
  "draw_from buf len rows cols vtop i p =
     (if i < len then
        let (vrow, vcol) = p;
            c = buf ! i;
            clen = u8_char_len buf len i;
            (vrow, vcol) = (if c = CHR 0x0A \<or> vcol \<ge> cols - 1 then (vrow + 1, 0) else (vrow, vcol))
        in
        if c = CHR 0x0A then draw_from buf len rows cols vtop (i + 1) (vrow, vcol)
        else
          let wr = vrow - vtop + 1 in
          (if 1 \<le> wr \<and> wr < rows - 1 then [(wr, vcol, take clen (drop i buf))] else []) @
          draw_from buf len rows cols vtop (i + clen) (vrow, vcol + 1)
      else [])"
  by pat_completeness auto
termination by (relation "measure (\<lambda>(buf, len, rows, cols, vtop, i, p). len - i)")
    (auto simp: diff_less_mono2)

declare draw_from.simps [simp del]

definition draw_text :: "bytes \<Rightarrow> nat \<Rightarrow> int \<Rightarrow> int \<Rightarrow> int \<Rightarrow> cell list" where
  "draw_text buf len rows cols vtop = draw_from buf len rows cols vtop 0 (0, 0)"

function rows_from :: "bytes \<Rightarrow> nat \<Rightarrow> int \<Rightarrow> nat \<Rightarrow> int \<times> int \<Rightarrow> int \<times> int" where
  "rows_from buf len cols i p =
     (if i < len
      then (if u8_is_cont (buf ! i) then rows_from buf len cols (i + 1) p
            else rows_from buf len cols (i + 1) (wrap_step cols (buf ! i) p))
      else p)"
  by pat_completeness auto
termination by (relation "measure (\<lambda>(buf, len, cols, i, p). len - i)") auto

declare rows_from.simps [simp del]

definition total_vrows :: "bytes \<Rightarrow> nat \<Rightarrow> int \<Rightarrow> int" where
  "total_vrows buf len cols = fst (rows_from buf len cols 0 (1, 0))"

end
