(* ===== verification/Editor.thy ===== *)
theory Editor
  imports Net Text
begin

text \<open>
  The editor of the client (\<open>screen_editor\<close> of \<open>client/ui.c\<close>) with its on-disk backup. A turn of its
  loop is one function of the editor's state, the world outside (connection, files, screen, terminal)
  and the input of that turn: the window size, the key, and what the allocator and the file system
  answer. Memory is a block of bytes (CLib.thy), so an access out of bounds is an outcome.
\<close>

subsection \<open>Inputs, the world\<close>

text \<open>
  What \<open>wgetch\<close> delivers: \<open>ERR\<close> at the timeout, a byte, or a code above 255 for a function key. The
  state of the two wheel buttons is what the code reads of a mouse event; \<open>None\<close> is a \<open>getmouse\<close>
  that fails.
\<close>

record mouse_event =
  me_button4 :: bool
  me_button5 :: bool

datatype key = ERR | Byte char | KEY_UP | KEY_DOWN | KEY_LEFT | KEY_RIGHT | KEY_HOME | KEY_END
  | KEY_BACKSPACE | KEY_DC | KEY_ENTER | KEY_F nat | KEY_MOUSE "mouse_event option" | Other_Key

record ui_input =
  in_rows :: int
  in_cols :: int
  in_key :: key
  in_now :: int
  in_calloc :: bool
  in_realloc :: "(nat \<Rightarrow> char) option"
  in_fopen :: bool
  in_fwrite :: nat
  in_remove :: bool

type_synonym disk = "string \<rightharpoonup> bytes"

text \<open>
  The window at a refresh: the title line, the characters put into the window, the line at the bottom,
  the window row shown highlighted, the cursor.
\<close>

record frame =
  fr_header :: string
  fr_cells :: "cell list"
  fr_bar :: string
  fr_marked :: "int option"
  fr_cursor :: "int \<times> int"

record 'w world =
  wo_net :: 'w
  wo_disk :: disk
  wo_frame :: frame
  wo_ixon :: bool

text \<open>What \<open>strftime\<close> reads of a \<open>struct tm\<close>.\<close>

record struct_tm =
  tm_year :: int
  tm_mon :: int
  tm_mday :: int
  tm_hour :: int
  tm_min :: int

text \<open>The protocol library, \<open>localtime\<close> (\<open>None\<close> is the null pointer), and \<open>g_entry_at\<close>.\<close>

record 'w ui_env =
  ue_proto :: "'w proto"
  ue_localtime :: "int \<Rightarrow> struct_tm option"
  ue_entry_at :: int

definition two_digits :: "int \<Rightarrow> string" where
  "two_digits n = (if 0 \<le> n \<and> n < 10 then CHR ''0'' # show_int n else show_int n)"

text \<open>
  \<open>strftime\<close> with the format \<open>%Y-%m-%d %H:%M\<close> into a buffer of \<open>sz\<close> bytes. When the text and its NUL do not
  fit the contents of the buffer are indeterminate: \<open>None\<close>.
\<close>

definition strftime_minutes :: "nat \<Rightarrow> struct_tm \<Rightarrow> string option" where
  "strftime_minutes sz t =
     (let s = show_int (tm_year t + 1900) @ ''-'' @ two_digits (tm_mon t + 1) @ ''-'' @ two_digits (tm_mday t) @
            '' '' @ two_digits (tm_hour t) @ '':'' @ two_digits (tm_min t)
      in if length s < sz then Some s else None)"

text \<open>\<open>None\<close> is undefined behaviour: a null pointer handed to \<open>strftime\<close>, or an indeterminate buffer read.\<close>

definition format_ts :: "'w ui_env \<Rightarrow> int \<Rightarrow> string option" where
  "format_ts env ts = (case ue_localtime env ts of None \<Rightarrow> None | Some t \<Rightarrow> strftime_minutes 32 t)"

text \<open>For the fields \<open>localtime\<close> gives, the buffer of 32 bytes is large enough.\<close>

lemma two_digits_length: "0 \<le> n \<Longrightarrow> n < 100 \<Longrightarrow> length (two_digits n) = 2"
  by (simp add: two_digits_def show_int_def show_nat.simps[of "nat n"] show_nat.simps[of "nat n div 10"]) linarith

lemma format_ts_fits:
  assumes "ue_localtime env ts = Some t" and "fits_int (tm_year t + 1900)" and "0 \<le> tm_mon t" "tm_mon t < 12"
    and "0 \<le> tm_mday t" "tm_mday t < 32" and "0 \<le> tm_hour t" "tm_hour t < 24" and "0 \<le> tm_min t" "tm_min t < 60"
  shows "format_ts env ts \<noteq> None"
  using assms show_int_length_int[OF assms(2)]
  by (simp add: format_ts_def strftime_minutes_def two_digits_length Let_def)

definition SCROLL_LINES :: int where "SCROLL_LINES = 3"

subsection \<open>Backup files\<close>

definition backup_path :: "int \<Rightarrow> nat \<Rightarrow> string" where
  "backup_path entry_id sz =
     (if entry_id > 0 then snprintf sz (''diary_'' @ show_int entry_id @ ''.tmp'')
      else snprintf sz ''diary_new.tmp'')"

text \<open>Opening for writing empties the file; the write may stop short, which the code does not look at.\<close>

definition backup_write :: "ui_input \<Rightarrow> int \<Rightarrow> bytes \<Rightarrow> nat \<Rightarrow> disk \<Rightarrow> disk" where
  "backup_write inp entry_id buf len disk =
     (if in_fopen inp then disk(backup_path entry_id 64 \<mapsto> take (min (in_fwrite inp) len) buf) else disk)"

definition backup_remove :: "ui_input \<Rightarrow> int \<Rightarrow> disk \<Rightarrow> disk" where
  "backup_remove inp entry_id disk =
     (if in_remove inp then disk(backup_path entry_id 64 := None) else disk)"

subsection \<open>The editor's state\<close>

record editor =
  ed_buf :: bytes
  ed_size :: nat
  ed_len :: nat
  ed_cursor :: nat
  ed_top :: int
  ed_dirty :: int
  ed_id :: int
  ed_stamp :: int
  ed_status :: string

text \<open>\<open>while (buf_len + 1 >= buf_sz) buf_sz *= 2\<close>; a size of 0, for which C would not return, is never passed.\<close>

function grow_size :: "nat \<Rightarrow> nat \<Rightarrow> nat" where
  "grow_size len sz = (if sz \<noteq> 0 \<and> len + 1 \<ge> sz then grow_size len (sz * 2) else sz)"
  by pat_completeness auto
termination by (relation "measure (\<lambda>(len, sz). Suc (Suc len) - sz)") auto

declare grow_size.simps [simp del]

text \<open>
  The start of \<open>screen_editor\<close>. The results of \<open>calloc\<close> and \<open>realloc\<close> are not tested there. The null
  pointer is the block without bytes: every later access to it is out of bounds, and the copy of the
  text to it is undefined behaviour at once.
\<close>

definition editor_open :: "ui_input \<Rightarrow> int \<Rightarrow> bytes option \<Rightarrow> int \<Rightarrow> editor outcome" where
  "editor_open inp entry_id initial_text timestamp =
     (let buf = (if in_calloc inp then replicate 4096 (CHR 0x00) else []) in
      case initial_text of
        None \<Rightarrow>
          Next \<lparr>ed_buf = buf, ed_size = 4096, ed_len = 0, ed_cursor = 0, ed_top = 0, ed_dirty = 0,
            ed_id = entry_id, ed_stamp = timestamp, ed_status = []\<rparr>
      | Some text \<Rightarrow>
          let len = length (c_str text); sz = grow_size len 4096 in
          case realloc (in_realloc inp) buf sz of
            None \<Rightarrow> Undefined
          | Some m \<Rightarrow> Next \<lparr>ed_buf = c_str text @ drop len m, ed_size = sz, ed_len = len,
              ed_cursor = len, ed_top = 0, ed_dirty = 0, ed_id = entry_id, ed_stamp = timestamp,
              ed_status = []\<rparr>)"

subsection \<open>What is shown\<close>

definition editor_vpos :: "ui_input \<Rightarrow> editor \<Rightarrow> int \<times> int" where
  "editor_vpos inp st = get_vpos (ed_buf st) (ed_len st) (ed_cursor st) (in_cols inp)"

definition editor_scroll :: "ui_input \<Rightarrow> editor \<Rightarrow> editor" where
  "editor_scroll inp st =
     (let text_rows = in_rows inp - 2;
          cur_vrow = fst (editor_vpos inp st);
          vtop = ed_top st;
          vtop = (if cur_vrow < vtop then cur_vrow else vtop);
          vtop = (if cur_vrow \<ge> vtop + text_rows then cur_vrow - text_rows + 1 else vtop);
          vtop = (if vtop < 0 then 0 else vtop)
      in st\<lparr>ed_top := vtop\<rparr>)"

definition editor_header :: "editor \<Rightarrow> string \<Rightarrow> string" where
  "editor_header st ts =
     (let mark = (if ed_dirty st \<noteq> 0 then '' *'' else []) in
      if ed_id st > 0
      then snprintf 128 ('' Entry #'' @ show_int (ed_id st) @ '' - '' @ ts @ mark @ '' '')
      else snprintf 128 ('' New entry - '' @ ts @ mark @ '' ''))"

definition editor_bar :: "editor \<Rightarrow> string" where
  "editor_bar st =
     (if ed_status st \<noteq> []
      then snprintf 256 (ed_status st @ ''  |  [Ctrl+S/F2] save  [ESC] exit'')
      else snprintf 256 ''[Ctrl+S/F2] save  [ESC] exit'')"

definition editor_frame :: "ui_input \<Rightarrow> editor \<Rightarrow> string \<Rightarrow> frame" where
  "editor_frame inp st ts =
     (let (cur_vrow, cur_vcol) = editor_vpos inp st in
      \<lparr>fr_header = editor_header st ts,
       fr_cells = draw_text (ed_buf st) (ed_len st) (in_rows inp) (in_cols inp) (ed_top st),
       fr_bar = editor_bar st,
       fr_marked = None,
       fr_cursor = (cur_vrow - ed_top st + 1, cur_vcol)\<rparr>)"

subsection \<open>Saving\<close>

definition editor_save :: "'w ui_env \<Rightarrow> ui_input \<Rightarrow> editor \<times> 'w world \<Rightarrow> (editor \<times> 'w world) outcome" where
  "editor_save env inp s =
     (let (st, w) = s in
      if ed_dirty st = 0 \<and> ed_id st > 0
      then Next (st\<lparr>ed_status := snprintf 128 ''No changes.''\<rparr>, w)
      else
        (case store_byte (ed_buf st) (ed_len st) (CHR 0x00) of
           None \<Rightarrow> Undefined
         | Some m \<Rightarrow>
             let disk = backup_write inp (if ed_id st > 0 then ed_id st else 0) m (ed_len st) (wo_disk w);
                 (new_id, net) =
                   (if ed_id st > 0 then net_update_entry (ue_proto env) (ed_id st) m (wo_net w)
                    else net_post_entry (ue_proto env) m (ue_entry_at env) (wo_net w));
                 st = st\<lparr>ed_buf := m\<rparr>
             in
             if new_id > 0
             then Next (st\<lparr>ed_id := (if ed_id st \<le> 0 then new_id else ed_id st), ed_dirty := 0,
                           ed_status := snprintf 128 ''Saved.''\<rparr>,
                        w\<lparr>wo_net := net,
                          wo_disk := backup_remove inp (if ed_id st > 0 then ed_id st else 0) disk\<rparr>)
             else Next (st\<lparr>ed_status := snprintf 128 (''Save failed. Backup: '' @
                             (if ed_id st > 0 then ''diary_X.tmp'' else ''diary_new.tmp''))\<rparr>,
                        w\<lparr>wo_net := net, wo_disk := disk\<rparr>)))"

subsection \<open>Editing\<close>

text \<open>\<open>while (k > 0 && u8_is_cont(buf[k])) k--\<close>\<close>

fun char_start :: "bytes \<Rightarrow> nat \<Rightarrow> nat" where
  "char_start buf 0 = 0"
| "char_start buf (Suc k) = (if u8_is_cont (buf ! Suc k) then char_start buf k else Suc k)"

definition editor_backspace :: "editor \<Rightarrow> editor option" where
  "editor_backspace st =
     (if ed_cursor st > 0 then
        let start = char_start (ed_buf st) (ed_cursor st - 1) in
        (case memmove (ed_buf st) start (ed_cursor st) (size_sub (ed_len st) (ed_cursor st)) of
           None \<Rightarrow> None
         | Some m \<Rightarrow> Some (st\<lparr>ed_buf := m, ed_len := size_sub (ed_len st) (ed_cursor st - start),
                               ed_cursor := start, ed_dirty := 1\<rparr>))
      else Some st)"

definition editor_delete :: "editor \<Rightarrow> editor option" where
  "editor_delete st =
     (if ed_cursor st < ed_len st then
        let clen = u8_char_len (ed_buf st) (ed_len st) (ed_cursor st) in
        (case memmove (ed_buf st) (ed_cursor st) (ed_cursor st + clen)
                (size_sub (size_sub (ed_len st) (ed_cursor st)) clen) of
           None \<Rightarrow> None
         | Some m \<Rightarrow> Some (st\<lparr>ed_buf := m, ed_len := size_sub (ed_len st) clen, ed_dirty := 1\<rparr>))
      else Some st)"

text \<open>
  Typing a byte; the two branches of the code differ only in the byte. When the buffer is full it
  doubles, and when there is no memory for that the editor is left.
\<close>

definition put_byte :: "char \<Rightarrow> editor \<Rightarrow> editor option" where
  "put_byte c st =
     (case memmove (ed_buf st) (ed_cursor st + 1) (ed_cursor st) (size_sub (ed_len st) (ed_cursor st)) of
        None \<Rightarrow> None
      | Some m \<Rightarrow>
          (case store_byte m (ed_cursor st) c of
             None \<Rightarrow> None
           | Some m \<Rightarrow> Some (st\<lparr>ed_buf := m, ed_len := ed_len st + 1, ed_cursor := ed_cursor st + 1,
                                 ed_dirty := 1\<rparr>)))"

definition grow_buffer :: "ui_input \<Rightarrow> editor \<Rightarrow> editor option" where
  "grow_buffer inp st =
     (if ed_len st + 1 \<ge> ed_size st
      then map_option (\<lambda>m. st\<lparr>ed_buf := m, ed_size := ed_size st * 2\<rparr>)
             (realloc (in_realloc inp) (ed_buf st) (ed_size st * 2))
      else Some st)"

definition editor_type :: "ui_input \<Rightarrow> char \<Rightarrow> editor \<Rightarrow> editor outcome" where
  "editor_type inp c st =
     (case grow_buffer inp st of
        None \<Rightarrow> Leave st
      | Some st1 \<Rightarrow> (case put_byte c st1 of None \<Rightarrow> Undefined | Some st2 \<Rightarrow> Next st2))"

text \<open>\<open>isprint\<close> of a byte below 128, and the bytes of UTF-8 characters.\<close>

definition typed_byte :: "char \<Rightarrow> bool" where
  "typed_byte c \<longleftrightarrow> (32 \<le> (of_char c :: nat) \<and> (of_char c :: nat) < 127) \<or> 128 \<le> (of_char c :: nat)"

subsection \<open>One turn of the loop\<close>

fun editor_wheel :: "mouse_event option \<Rightarrow> editor \<Rightarrow> editor" where
  "editor_wheel None st = st"
| "editor_wheel (Some ev) st =
     (if me_button4 ev then
        let vtop = ed_top st - SCROLL_LINES in st\<lparr>ed_top := (if vtop < 0 then 0 else vtop)\<rparr>
      else if me_button5 ev then st\<lparr>ed_top := ed_top st + SCROLL_LINES\<rparr>
      else st)"

definition as_turn :: "'w world \<Rightarrow> editor option \<Rightarrow> (editor \<times> 'w world) outcome" where
  "as_turn w r = (case r of None \<Rightarrow> Undefined | Some st \<Rightarrow> Next (st, w))"

text \<open>
  The chain of the code's conditions on \<open>ch\<close>, in its order. A function key no branch takes ends up in
  \<open>isprint\<close>, whose argument must be a byte or \<open>EOF\<close>: undefined.
\<close>

definition editor_key ::
    "'w ui_env \<Rightarrow> ui_input \<Rightarrow> key \<Rightarrow> editor \<times> 'w world \<Rightarrow> (editor \<times> 'w world) outcome" where
  "editor_key env inp ch s =
     (let (st, w) = s;
          (cur_vrow, cur_vcol) = editor_vpos inp st;
          goto = (\<lambda>vr vc. Next (st\<lparr>ed_cursor :=
            vpos_to_idx (ed_buf st) (ed_len st) (in_cols inp) vr vc\<rparr>, w))
      in
      if ch = Byte (CHR 0x13) \<or> ch = KEY_F 2 \<or> ch = Byte (CHR 0x17) then editor_save env inp (st, w)
      else if ch = Byte (CHR 0x1B) then
        (if ed_dirty st \<noteq> 0
         then Next (st\<lparr>ed_status := snprintf 128
                ''Unsaved changes. Press ESC again to discard, Ctrl+S to save.'', ed_dirty := -1\<rparr>, w)
         else if ed_dirty st = -1 then Leave (st, w)
         else Leave (st, w))
      else if ch = KEY_UP then (if cur_vrow > 0 then goto (cur_vrow - 1) cur_vcol else Next (st, w))
      else if ch = KEY_DOWN then goto (cur_vrow + 1) cur_vcol
      else if ch = KEY_LEFT \<and> ed_cursor st > 0 then
        Next (st\<lparr>ed_cursor := char_start (ed_buf st) (ed_cursor st - 1)\<rparr>, w)
      else if ch = KEY_RIGHT \<and> ed_cursor st < ed_len st then
        Next (st\<lparr>ed_cursor := ed_cursor st + u8_char_len (ed_buf st) (ed_len st) (ed_cursor st)\<rparr>, w)
      else if ch = KEY_HOME then goto cur_vrow 0
      else if ch = KEY_END then goto cur_vrow (in_cols inp)
      else
        (case ch of
           KEY_MOUSE ev \<Rightarrow> Next (editor_wheel ev st, w)
         | KEY_BACKSPACE \<Rightarrow> as_turn w (editor_backspace st)
         | KEY_DC \<Rightarrow> as_turn w (editor_delete st)
         | KEY_ENTER \<Rightarrow> map_outcome (\<lambda>st. (st, w)) (editor_type inp (CHR 0x0A) st)
         | Byte c \<Rightarrow>
             if c = CHR 0x7F \<or> c = CHR 0x08 then as_turn w (editor_backspace st)
             else if c = CHR 0x0A \<or> c = CHR 0x0D
             then map_outcome (\<lambda>st. (st, w)) (editor_type inp (CHR 0x0A) st)
             else if typed_byte c then map_outcome (\<lambda>st. (st, w)) (editor_type inp c st)
             else Next (st, w)
         | ERR \<Rightarrow> Next (st, w)
         | _ \<Rightarrow> Undefined))"

definition editor_step ::
    "'w ui_env \<Rightarrow> ui_input \<Rightarrow> editor \<times> 'w world \<Rightarrow> (editor \<times> 'w world) outcome" where
  "editor_step env inp s =
     (let (st, w) = s; st = editor_scroll inp st in
      case format_ts env (ed_stamp st) of
        None \<Rightarrow> Undefined
      | Some ts \<Rightarrow>
          let w = w\<lparr>wo_frame := editor_frame inp st ts\<rparr>;
              st = st\<lparr>ed_status := []\<rparr>
          in
          if in_key inp = ERR
          then (if ed_dirty st = 0 then Next (st, w) else editor_key env inp (Byte (CHR 0x13)) (st, w))
          else editor_key env inp (in_key inp) (st, w))"

definition editor_loop ::
    "'w ui_env \<Rightarrow> ui_input list \<Rightarrow> editor \<times> 'w world \<Rightarrow> (editor \<times> 'w world) outcome \<times> ui_input list" where
  "editor_loop env = run_turns (editor_step env)"

text \<open>
  \<open>screen_editor\<close>: flow control is off while it runs. \<open>inp\<close> is the input of the caller's turn, whose
  allocator answers serve the buffer.
\<close>

definition screen_editor ::
    "'w ui_env \<Rightarrow> ui_input \<Rightarrow> int \<Rightarrow> bytes option \<Rightarrow> int \<Rightarrow> ui_input list \<Rightarrow> 'w world \<Rightarrow>
     'w world outcome \<times> ui_input list" where
  "screen_editor env inp entry_id initial_text timestamp inps w =
     (case editor_open inp entry_id initial_text timestamp of
        Next st \<Rightarrow>
          (case editor_loop env inps (st, w\<lparr>wo_ixon := False\<rparr>) of
             (Next s, rest) \<Rightarrow> (Next (snd s), rest)
           | (Leave s, rest) \<Rightarrow> (Leave ((snd s)\<lparr>wo_ixon := wo_ixon w\<rparr>), rest)
           | (Undefined, rest) \<Rightarrow> (Undefined, rest))
      | _ \<Rightarrow> (Undefined, inps))"

end
