(* ===== verification/TextProps.thy ===== *)
theory TextProps
  imports Text
begin

text \<open>
  What the positions of Text.thy satisfy: they are the fold of one step over the bytes, they grow
  strictly from character to character, so \<open>vpos_to_idx\<close> inverts \<open>get_vpos\<close>, and the drawing loop
  puts every character where \<open>get_vpos\<close> says, inside the window and never two on one cell.
\<close>

subsection \<open>Positions as a fold\<close>

lemma u8_is_cont_newline [simp]: "\<not> u8_is_cont (CHR 0x0A)"
  by (simp add: u8_is_cont_def)

definition pos_step :: "int \<Rightarrow> char \<Rightarrow> int \<times> int \<Rightarrow> int \<times> int" where
  "pos_step cols c p = (if u8_is_cont c then p else wrap_step cols c p)"

definition pos :: "bytes \<Rightarrow> int \<Rightarrow> nat \<Rightarrow> int \<times> int" where
  "pos buf cols k = fold (\<lambda>j. pos_step cols (buf ! j)) [0..<k] (0, 0)"

lemma pos_0 [simp]: "pos buf cols 0 = (0, 0)"
  by (simp add: pos_def)

lemma pos_Suc: "pos buf cols (Suc k) = pos_step cols (buf ! k) (pos buf cols k)"
  by (simp add: pos_def)

lemma vpos_from_pos:
  "i \<le> m \<Longrightarrow> m = min cursor len \<Longrightarrow> vpos_from buf len cursor cols i (pos buf cols i) = pos buf cols m"
proof (induction "m - i" arbitrary: i)
  case 0
  then show ?case by (subst vpos_from.simps) auto
next
  case (Suc d)
  have "vpos_from buf len cursor cols (Suc i) (pos buf cols (Suc i)) = pos buf cols m"
    using Suc by (intro Suc.hyps) auto
  then show ?case
    using Suc.hyps(2) Suc.prems by (subst vpos_from.simps) (auto simp: pos_Suc pos_step_def)
qed

lemma get_vpos_pos: "get_vpos buf len cursor cols = pos buf cols (min cursor len)"
  using vpos_from_pos[of 0 "min cursor len" cursor len buf cols] by (simp add: get_vpos_def)

lemma rows_from_pos:
  "i \<le> len \<Longrightarrow> rows_from buf len cols i (fst (pos buf cols i) + 1, snd (pos buf cols i)) =
     (fst (pos buf cols len) + 1, snd (pos buf cols len))"
proof (induction "len - i" arbitrary: i)
  case 0
  then show ?case by (subst rows_from.simps) auto
next
  case (Suc d)
  have "rows_from buf len cols (Suc i) (fst (pos buf cols (Suc i)) + 1, snd (pos buf cols (Suc i))) =
      (fst (pos buf cols len) + 1, snd (pos buf cols len))"
    using Suc by (intro Suc.hyps) auto
  then show ?case
    using Suc.hyps(2) Suc.prems
    by (subst rows_from.simps) (auto simp: pos_Suc pos_step_def wrap_step_def split: prod.splits)
qed

lemma total_vrows_pos: "total_vrows buf len cols = fst (pos buf cols len) + 1"
  using rows_from_pos[of 0 len buf cols] by (simp add: total_vrows_def)

subsection \<open>Order of positions\<close>

text \<open>A boundary is an index where a character starts, or the end.\<close>

definition boundary :: "bytes \<Rightarrow> nat \<Rightarrow> nat \<Rightarrow> bool" where
  "boundary buf len k \<longleftrightarrow> k \<le> len \<and> (k < len \<longrightarrow> \<not> u8_is_cont (buf ! k))"

definition ends_row :: "bytes \<Rightarrow> int \<Rightarrow> nat \<Rightarrow> bool" where
  "ends_row buf cols k \<longleftrightarrow> buf ! k = CHR 0x0A \<or> snd (pos buf cols k) \<ge> cols - 1"

definition before :: "int \<times> int \<Rightarrow> int \<times> int \<Rightarrow> bool" where
  "before p q \<longleftrightarrow> fst p < fst q \<or> (fst p = fst q \<and> snd p < snd q)"

lemma before_trans: "before p q \<Longrightarrow> before q r \<Longrightarrow> before p r"
  by (auto simp: before_def)

lemma wrap_step_before: "before p (wrap_step cols c p)"
  by (auto simp: wrap_step_def before_def split: prod.splits)

lemma pos_step_before: "p = pos_step cols c p \<or> before p (pos_step cols c p)"
  by (simp add: pos_step_def wrap_step_before)

lemma pos_mono: "i \<le> j \<Longrightarrow> pos buf cols i = pos buf cols j \<or> before (pos buf cols i) (pos buf cols j)"
proof (induction rule: dec_induct)
  case (step n)
  then show ?case
    using pos_step_before[of "pos buf cols n" cols "buf ! n"] unfolding pos_Suc
    by (metis before_trans)
qed simp

lemma pos_strict:
  assumes "i < j" and "\<not> u8_is_cont (buf ! i)"
  shows "before (pos buf cols i) (pos buf cols j)"
proof -
  have "before (pos buf cols i) (pos buf cols (Suc i))"
    using assms(2) wrap_step_before by (simp add: pos_Suc pos_step_def)
  then show ?thesis
    using pos_mono[of "Suc i" j buf cols] assms(1) by (metis Suc_leI before_trans)
qed

lemma pos_row_mono: "i \<le> j \<Longrightarrow> fst (pos buf cols i) \<le> fst (pos buf cols j)"
  using pos_mono[of i j buf cols] by (auto simp: before_def)

lemma pos_next_row:
  "\<not> u8_is_cont (buf ! i) \<Longrightarrow> ends_row buf cols i \<Longrightarrow>
   fst (pos buf cols (Suc i)) = fst (pos buf cols i) + 1"
  by (auto simp: pos_Suc pos_step_def wrap_step_def ends_row_def split: prod.splits)

lemma pos_same_row:
  "\<not> (\<not> u8_is_cont (buf ! i) \<and> ends_row buf cols i) \<Longrightarrow>
   fst (pos buf cols (Suc i)) = fst (pos buf cols i)"
  by (auto simp: pos_Suc pos_step_def wrap_step_def ends_row_def split: prod.splits)

lemma pos_col_bounds: "0 \<le> snd (pos buf cols k) \<and> snd (pos buf cols k) \<le> max 1 (cols - 1)"
proof (induction k)
  case (Suc k)
  then show ?case
    by (cases "pos buf cols k") (auto simp: pos_Suc pos_step_def wrap_step_def)
qed simp

lemma pos_row_nonneg: "0 \<le> fst (pos buf cols k)"
  using pos_row_mono[of 0 k buf cols] by simp

text \<open>Where the row changes there is an index that ends it.\<close>

lemma row_end_exists:
  "k \<le> n \<Longrightarrow> fst (pos buf cols k) = t \<Longrightarrow> fst (pos buf cols n) > t \<Longrightarrow>
   \<exists>m. k \<le> m \<and> m < n \<and> fst (pos buf cols m) = t \<and> \<not> u8_is_cont (buf ! m) \<and> ends_row buf cols m"
proof (induction rule: dec_induct)
  case (step n)
  show ?case
  proof (cases "fst (pos buf cols n) > t")
    case True
    then show ?thesis using step.IH step.prems less_SucI by blast
  next
    case False
    then have "fst (pos buf cols n) = t"
      using pos_row_mono[OF step.hyps(1), of buf cols] step.prems(1) by simp
    then show ?thesis
      using step.hyps(1) step.prems pos_same_row[of buf n cols] by (intro exI[of _ n]) auto
  qed
qed simp

subsection \<open>The index of a position\<close>

definition stops_at :: "bytes \<Rightarrow> nat \<Rightarrow> int \<Rightarrow> int \<Rightarrow> int \<Rightarrow> nat \<Rightarrow> bool" where
  "stops_at buf len cols tvr tvc k \<longleftrightarrow> boundary buf len k \<and>
     (pos buf cols k = (tvr, tvc) \<or> k = len \<or> (fst (pos buf cols k) = tvr \<and> ends_row buf cols k))"

lemma idx_from_first:
  "i \<le> len \<Longrightarrow> j = idx_from buf len cols tvr tvc i (pos buf cols i) \<Longrightarrow>
   i \<le> j \<and> stops_at buf len cols tvr tvc j \<and> (\<forall>k. i \<le> k \<and> k < j \<longrightarrow> \<not> stops_at buf len cols tvr tvc k)"
proof (induction "len - i" arbitrary: i)
  case 0
  then show ?case
    by (subst (asm) idx_from.simps) (auto simp: stops_at_def boundary_def split: prod.splits)
next
  case (Suc d)
  show ?case
  proof (cases "stops_at buf len cols tvr tvc i")
    case True
    then have "j = i"
      using Suc.hyps(2) Suc.prems
      by (subst (asm) idx_from.simps)
         (auto simp: stops_at_def boundary_def ends_row_def split: prod.splits if_splits)
    with True show ?thesis by auto
  next
    case False
    then have "j = idx_from buf len cols tvr tvc (Suc i) (pos buf cols (Suc i))"
      using Suc.hyps(2) Suc.prems
      by (subst (asm) idx_from.simps)
         (auto simp: stops_at_def boundary_def ends_row_def pos_Suc pos_step_def split: prod.splits if_splits)
    then have "Suc i \<le> j \<and> stops_at buf len cols tvr tvc j \<and>
        (\<forall>k. Suc i \<le> k \<and> k < j \<longrightarrow> \<not> stops_at buf len cols tvr tvc k)"
      using Suc by (intro Suc.hyps) auto
    then show ?thesis using False by (metis Suc_leD not_less_eq_eq order_antisym)
  qed
qed

lemma vpos_to_idx_first:
  "stops_at buf len cols tvr tvc (vpos_to_idx buf len cols tvr tvc) \<and>
   (\<forall>k < vpos_to_idx buf len cols tvr tvc. \<not> stops_at buf len cols tvr tvc k)"
  using idx_from_first[of 0 len _ buf cols tvr tvc] by (simp add: vpos_to_idx_def)

lemma vpos_to_idx_boundary [simp]: "boundary buf len (vpos_to_idx buf len cols tvr tvc)"
  using vpos_to_idx_first by (simp add: stops_at_def)

lemma vpos_to_idx_le [simp]: "vpos_to_idx buf len cols tvr tvc \<le> len"
  using vpos_to_idx_boundary[of buf len cols tvr tvc] by (simp add: boundary_def del: vpos_to_idx_boundary)

lemma vpos_to_idx_pos:
  assumes "boundary buf len i" and "pos buf cols i = (tvr, tvc)"
  shows "vpos_to_idx buf len cols tvr tvc = i"
proof -
  let ?j = "vpos_to_idx buf len cols tvr tvc"
  have "stops_at buf len cols tvr tvc i" using assms by (simp add: stops_at_def)
  then have "?j \<le> i" using vpos_to_idx_first[of buf len cols tvr tvc] not_less by blast
  moreover have "\<not> ?j < i"
  proof
    assume lt: "?j < i"
    then have s: "\<not> u8_is_cont (buf ! ?j)" "?j < len"
      using assms(1) vpos_to_idx_boundary[of buf len cols tvr tvc]
      by (auto simp: boundary_def simp del: vpos_to_idx_boundary)
    have "before (pos buf cols ?j) (tvr, tvc)"
      using pos_strict[OF lt s(1), of cols] assms(2) by simp
    moreover have "pos buf cols ?j = (tvr, tvc) \<or> fst (pos buf cols ?j) = tvr \<and> ends_row buf cols ?j"
      using vpos_to_idx_first[of buf len cols tvr tvc] s by (auto simp: stops_at_def)
    ultimately have "fst (pos buf cols ?j) = tvr" "ends_row buf cols ?j" by (auto simp: before_def)
    then have "fst (pos buf cols (Suc ?j)) = tvr + 1" using pos_next_row[OF s(1)] by simp
    then show False using pos_row_mono[of "Suc ?j" i buf cols] lt assms(2) by simp
  qed
  ultimately show ?thesis by simp
qed

lemma vpos_to_idx_row:
  assumes "k \<le> len" and "fst (pos buf cols k) = tvr"
  shows "fst (pos buf cols (vpos_to_idx buf len cols tvr tvc)) = tvr"
proof (rule ccontr)
  let ?j = "vpos_to_idx buf len cols tvr tvc"
  assume ne: "fst (pos buf cols ?j) \<noteq> tvr"
  then have j: "?j = len"
    using vpos_to_idx_first[of buf len cols tvr tvc] by (auto simp: stops_at_def)
  then have "fst (pos buf cols len) > tvr"
    using ne pos_row_mono[OF assms(1), of buf cols] assms(2) by simp
  then obtain m where "m < len" "fst (pos buf cols m) = tvr" "\<not> u8_is_cont (buf ! m)" "ends_row buf cols m"
    using row_end_exists[OF assms(1,2)] by blast
  then have "stops_at buf len cols tvr tvc m" by (simp add: stops_at_def boundary_def)
  then show False using vpos_to_idx_first[of buf len cols tvr tvc] \<open>m < len\<close> unfolding j by blast
qed

subsection \<open>The drawing loop\<close>

text \<open>
  Text in which no continuation byte stands at the start or right after a newline. Text of whole UTF-8
  characters is such a text.
\<close>

definition tidy :: "bytes \<Rightarrow> nat \<Rightarrow> bool" where
  "tidy buf len \<longleftrightarrow> (\<forall>i < len. u8_is_cont (buf ! i) \<longrightarrow> 0 < i \<and> buf ! (i - 1) \<noteq> CHR 0x0A)"

definition cell_pos :: "bytes \<Rightarrow> int \<Rightarrow> nat \<Rightarrow> int \<times> int" where
  "cell_pos buf cols i = (if snd (pos buf cols i) \<ge> cols - 1 then (fst (pos buf cols i) + 1, 0)
     else pos buf cols i)"

definition shown_char :: "bytes \<Rightarrow> nat \<Rightarrow> bool" where
  "shown_char buf i \<longleftrightarrow> \<not> u8_is_cont (buf ! i) \<and> buf ! i \<noteq> CHR 0x0A"

definition cell_at :: "bytes \<Rightarrow> nat \<Rightarrow> int \<Rightarrow> int \<Rightarrow> int \<Rightarrow> nat \<Rightarrow> cell list" where
  "cell_at buf len rows cols vtop i =
     (let (r, c) = cell_pos buf cols i; wr = r - vtop + 1 in
      if shown_char buf i \<and> 1 \<le> wr \<and> wr < rows - 1
      then [(wr, c, take (u8_char_len buf len i) (drop i buf))] else [])"

lemma pos_skip_cont:
  "(\<And>k. k < n \<Longrightarrow> u8_is_cont (buf ! (i + k))) \<Longrightarrow> pos buf cols (i + n) = pos buf cols i"
  by (induction n) (auto simp: pos_Suc pos_step_def)

lemma pos_char:
  assumes "\<not> u8_is_cont (buf ! i)"
  shows "pos buf cols (i + u8_char_len buf len i) = wrap_step cols (buf ! i) (pos buf cols i)"
proof -
  obtain m where m: "u8_char_len buf len i = Suc m"
    using u8_char_len_pos(2)[of buf len i] gr0_implies_Suc by blast
  have "pos buf cols (Suc i + m) = pos buf cols (Suc i)"
    using u8_char_len_cont[of _ buf len i] m by (intro pos_skip_cont) force
  then show ?thesis using assms m by (simp add: pos_Suc[of _ _ i] pos_step_def)
qed

lemma cells_skip_cont:
  assumes "i < len"
  shows "concat (map (cell_at buf len rows cols vtop) [i..<len]) = cell_at buf len rows cols vtop i @
    concat (map (cell_at buf len rows cols vtop) [i + u8_char_len buf len i..<len])"
proof -
  let ?n = "u8_char_len buf len i"
  have "[i..<len] = i # [Suc i..<i + ?n] @ [i + ?n..<len]"
    using u8_char_len_bound[OF assms, of buf] u8_char_len_pos(1)[of buf len i]
    by (metis assms le_add_diff_inverse le_simps(3) less_add_same_cancel1 u8_char_len_pos(2)
        upt_add_eq_append upt_conv_Cons)
  moreover have "cell_at buf len rows cols vtop k = []" if "k \<in> set [Suc i..<i + ?n]" for k
  proof -
    have "u8_is_cont (buf ! k)" using u8_char_len_cont[of "k - i" buf len i] that by force
    then show ?thesis by (simp add: cell_at_def shown_char_def split: prod.split)
  qed
  then have "concat (map (cell_at buf len rows cols vtop) [Suc i..<i + ?n]) = []" by simp
  ultimately show ?thesis by simp
qed

lemma draw_from_cells:
  assumes "tidy buf len"
  shows "boundary buf len i \<Longrightarrow> draw_from buf len rows cols vtop i (pos buf cols i) =
    concat (map (cell_at buf len rows cols vtop) [i..<len])"
proof (induction "len - i" arbitrary: i rule: less_induct)
  case less
  show ?case
  proof (cases "i < len")
    case False
    then show ?thesis by (subst draw_from.simps) auto
  next
    case True
    then have nc: "\<not> u8_is_cont (buf ! i)" using less.prems by (simp add: boundary_def)
    obtain r c where rc: "pos buf cols i = (r, c)" by force
    show ?thesis
    proof (cases "buf ! i = CHR 0x0A")
      case nl: True
      have "boundary buf len (i + 1)"
        using assms True nl by (auto simp: boundary_def tidy_def)
      moreover have "pos buf cols (i + 1) = (r + 1, 0)"
        using nl nc rc by (simp add: pos_Suc pos_step_def wrap_step_def)
      ultimately have "draw_from buf len rows cols vtop (i + 1) (r + 1, 0) =
          concat (map (cell_at buf len rows cols vtop) [i + 1..<len])"
        using less.hyps[of "i + 1"] True by simp
      moreover have "cell_at buf len rows cols vtop i = []"
        using nl by (simp add: cell_at_def shown_char_def split: prod.split)
      ultimately show ?thesis
        using True nl rc by (subst draw_from.simps) (simp add: upt_conv_Cons)
    next
      case False
      let ?n = "u8_char_len buf len i"
      have "boundary buf len (i + ?n)"
        using u8_char_len_bound[OF True, of buf] u8_char_len_end[of i buf len] by (simp add: boundary_def)
      then have "draw_from buf len rows cols vtop (i + ?n) (wrap_step cols (buf ! i) (r, c)) =
          concat (map (cell_at buf len rows cols vtop) [i + ?n..<len])"
        using less.hyps[of "i + ?n"] True pos_char[OF nc, of cols len] rc by (simp add: diff_less_mono2)
      then show ?thesis
        unfolding cells_skip_cont[OF True] using True False nc rc
        by (subst draw_from.simps) (auto simp: cell_at_def cell_pos_def shown_char_def wrap_step_def Let_def)
    qed
  qed
qed

lemma draw_text_cells:
  assumes "tidy buf len"
  shows "draw_text buf len rows cols vtop = concat (map (cell_at buf len rows cols vtop) [0..<len])"
proof -
  have "boundary buf len 0" using assms by (auto simp: boundary_def tidy_def)
  from draw_from_cells[OF assms this] show ?thesis by (simp add: draw_text_def)
qed

lemma draw_from_window:
  "len \<le> length buf \<Longrightarrow> 0 \<le> snd p \<Longrightarrow> (wr, vc, s) \<in> set (draw_from buf len rows cols vtop i p) \<Longrightarrow>
   1 \<le> wr \<and> wr < rows - 1 \<and> 0 \<le> vc \<and> vc < max 1 (cols - 1) \<and> s \<noteq> []"
proof (induction "len - i" arbitrary: i p rule: less_induct)
  case less
  show ?case
  proof (cases "i < len")
    case False
    then show ?thesis using less.prems by (subst (asm) draw_from.simps) simp
  next
    case True
    obtain r c where p: "p = (r, c)" by force
    define q where "q = (if buf ! i = CHR 0x0A \<or> c \<ge> cols - 1 then (r + 1, 0) else (r, c))"
    have q0: "0 \<le> snd q" "snd q < max 1 (cols - 1) \<or> buf ! i = CHR 0x0A"
      using less.prems(2) p by (auto simp: q_def)
    have nb: "take (u8_char_len buf len i) (drop i buf) \<noteq> []"
      using less.prems(1) True u8_char_len_pos(2)[of buf len i] by (simp del: u8_char_len_pos)
    consider "(wr, vc, s) \<in> set (draw_from buf len rows cols vtop (i + 1) q)"
      | "(wr, vc, s) \<in> set (draw_from buf len rows cols vtop (i + u8_char_len buf len i) (fst q, snd q + 1))"
      | "buf ! i \<noteq> CHR 0x0A" "1 \<le> wr" "wr < rows - 1" "vc = snd q"
        "s = take (u8_char_len buf len i) (drop i buf)"
      using less.prems(3) True
      by (subst (asm) draw_from.simps)
         (auto simp: q_def p Let_def split: if_splits prod.splits)
    then show ?thesis
    proof cases
      case 1
      then show ?thesis using less.hyps[of "i + 1" q] less.prems(1) True q0 by simp
    next
      case 2
      then show ?thesis
        using less.hyps[of "i + u8_char_len buf len i" "(fst q, snd q + 1)"] less.prems(1) True q0
        by (simp add: diff_less_mono2)
    next
      case 3
      then show ?thesis using q0 nb by simp
    qed
  qed
qed

lemma cell_pos_before:
  assumes "i < j" and "shown_char buf i" and "shown_char buf j"
  shows "before (cell_pos buf cols i) (cell_pos buf cols j)"
proof -
  have "pos buf cols (Suc i) = (fst (cell_pos buf cols i), snd (cell_pos buf cols i) + 1)"
    using assms(2)
    by (cases "pos buf cols i") (auto simp: shown_char_def pos_Suc pos_step_def wrap_step_def cell_pos_def)
  moreover have "pos buf cols (Suc i) = pos buf cols j \<or> before (pos buf cols (Suc i)) (pos buf cols j)"
    using assms(1) by (intro pos_mono) simp
  ultimately show ?thesis
    by (cases "pos buf cols j") (auto simp: before_def cell_pos_def[of _ _ j])
qed

lemma cells_sorted:
  "sorted_wrt (\<lambda>x y. before (fst x, fst (snd x)) (fst y, fst (snd y)))
     (concat (map (cell_at buf len rows cols vtop) [0..<n]))"
proof (induction n)
  case (Suc n)
  have "before (fst x, fst (snd x)) (fst y, fst (snd y))"
    if "x \<in> set (cell_at buf len rows cols vtop i)" "i < n" "y \<in> set (cell_at buf len rows cols vtop n)"
    for x y i
    using that cell_pos_before[of i n buf cols]
    by (cases "cell_pos buf cols i"; cases "cell_pos buf cols n")
       (auto simp: cell_at_def before_def split: if_splits)
  moreover have "sorted_wrt P (cell_at buf len rows cols vtop n)" for P
    by (auto simp: cell_at_def split: prod.split)
  ultimately show ?case using Suc by (auto simp: sorted_wrt_append)
qed simp

lemma before_irrefl: "before p q \<Longrightarrow> p \<noteq> q"
  by (auto simp: before_def)

lemma sorted_cells_distinct:
  "sorted_wrt (\<lambda>x y. before (fst x, fst (snd x)) (fst y, fst (snd y))) cs \<Longrightarrow>
   distinct (map (\<lambda>x. (fst x, fst (snd x))) cs)"
  by (induction cs) (auto dest!: before_irrefl)

text \<open>The bytes the cells hold when all of them are in the window.\<close>

lemma cells_text:
  assumes "tidy buf len" and "len \<le> length buf"
    and "\<And>i. i < len \<Longrightarrow> shown_char buf i \<Longrightarrow> 1 \<le> fst (cell_pos buf cols i) - vtop + 1 \<and>
      fst (cell_pos buf cols i) - vtop + 1 < rows - 1"
  shows "boundary buf len i \<Longrightarrow>
    concat (map (snd \<circ> snd) (concat (map (cell_at buf len rows cols vtop) [i..<len]))) =
    filter (\<lambda>c. c \<noteq> CHR 0x0A) (drop i (take len buf))"
proof (induction "len - i" arbitrary: i rule: less_induct)
  case less
  show ?case
  proof (cases "i < len")
    case True
    then have nc: "\<not> u8_is_cont (buf ! i)" using less.prems by (simp add: boundary_def)
    let ?n = "u8_char_len buf len i"
    have split: "drop i (take len buf) = take ?n (drop i buf) @ drop (i + ?n) (take len buf)"
      using u8_char_len_bound[OF True, of buf] assms(2)
      by (smt (verit, ccfv_threshold) add.commute append_take_drop_id drop_drop drop_take le_add_diff_inverse
          min.absorb1 min.commute take_take add_le_imp_le_diff)
    show ?thesis
    proof (cases "buf ! i = CHR 0x0A")
      case nl: True
      have "boundary buf len (i + 1)" using assms(1) True nl by (auto simp: boundary_def tidy_def)
      moreover have "cell_at buf len rows cols vtop i = []"
        using nl by (simp add: cell_at_def shown_char_def split: prod.split)
      moreover have "drop i (take len buf) = CHR 0x0A # drop (i + 1) (take len buf)"
        using True assms(2) nl by (simp add: Cons_nth_drop_Suc[symmetric])
      ultimately show ?thesis using less.hyps[of "i + 1"] True by (simp add: upt_conv_Cons)
    next
      case False
      have b: "boundary buf len (i + ?n)"
        using u8_char_len_bound[OF True, of buf] u8_char_len_end[of i buf len] by (simp add: boundary_def)
      have "cell_at buf len rows cols vtop i = [(fst (cell_pos buf cols i) - vtop + 1,
          snd (cell_pos buf cols i), take ?n (drop i buf))]"
        using assms(3)[OF True] nc False by (auto simp: cell_at_def shown_char_def split: prod.split)
      moreover have "CHR 0x0A \<notin> set (take ?n (drop i buf))"
      proof
        assume "CHR 0x0A \<in> set (take ?n (drop i buf))"
        then obtain k where "k < ?n" "buf ! (i + k) = CHR 0x0A"
          by (auto simp: in_set_conv_nth)
        then show False
          using u8_char_len_cont[of k buf len i] False by (cases "k = 0") auto
      qed
      then have "filter (\<lambda>c. c \<noteq> CHR 0x0A) (take ?n (drop i buf)) = take ?n (drop i buf)"
        by (intro filter_True) metis
      moreover have "concat (map (snd \<circ> snd) (concat (map (cell_at buf len rows cols vtop) [i + ?n..<len]))) =
          filter (\<lambda>c. c \<noteq> CHR 0x0A) (drop (i + ?n) (take len buf))"
        using True by (intro less.hyps b) (simp add: diff_less_mono2)
      ultimately show ?thesis
        unfolding cells_skip_cont[OF True] split by simp
    qed
  qed simp
qed

end
