(* ===== verification/EditorProps.thy ===== *)
theory EditorProps
  imports Editor TextProps
begin

text \<open>
  The editor keeps its memory safe and its buffer a list: an invariant every turn preserves, each
  editing key as an operation on the text and the cursor, and the cursor on character boundaries.
\<close>

subsection \<open>Abstraction and invariant\<close>

definition ed_text :: "editor \<Rightarrow> bytes" where
  "ed_text st = take (ed_len st) (ed_buf st)"

definition editor_inv :: "editor \<Rightarrow> bool" where
  "editor_inv st \<longleftrightarrow> ed_size st = length (ed_buf st) \<and> ed_len st + 1 \<le> ed_size st \<and>
     ed_cursor st \<le> ed_len st \<and> CHR 0x00 \<notin> set (ed_text st)"

lemma length_ed_text: "editor_inv st \<Longrightarrow> length (ed_text st) = ed_len st"
  by (simp add: editor_inv_def ed_text_def)

text \<open>The block as text, one byte at least behind it, the rest.\<close>

lemma editor_block:
  assumes "editor_inv st"
  obtains x r where "ed_buf st = ed_text st @ x # r"
proof -
  have "drop (ed_len st) (ed_buf st) \<noteq> []" using assms by (auto simp: editor_inv_def)
  then obtain x r where "drop (ed_len st) (ed_buf st) = x # r" by (cases "drop (ed_len st) (ed_buf st)") auto
  then show thesis using that[of x r] unfolding ed_text_def by (metis append_take_drop_id)
qed

definition ins :: "char \<Rightarrow> bytes \<times> nat \<Rightarrow> bytes \<times> nat" where
  "ins c tk = (take (snd tk) (fst tk) @ [c] @ drop (snd tk) (fst tk), snd tk + 1)"

definition content :: "editor \<Rightarrow> bytes \<times> nat" where
  "content st = (ed_text st, ed_cursor st)"

lemma editor_scroll_simps [simp]:
  "ed_buf (editor_scroll inp st) = ed_buf st" "ed_size (editor_scroll inp st) = ed_size st"
  "ed_len (editor_scroll inp st) = ed_len st" "ed_cursor (editor_scroll inp st) = ed_cursor st"
  "ed_dirty (editor_scroll inp st) = ed_dirty st" "ed_id (editor_scroll inp st) = ed_id st"
  "ed_stamp (editor_scroll inp st) = ed_stamp st" "ed_status (editor_scroll inp st) = ed_status st"
  by (simp_all add: editor_scroll_def Let_def)

lemma editor_wheel_simps [simp]:
  "ed_buf (editor_wheel ev st) = ed_buf st" "ed_size (editor_wheel ev st) = ed_size st"
  "ed_len (editor_wheel ev st) = ed_len st" "ed_cursor (editor_wheel ev st) = ed_cursor st"
  "ed_dirty (editor_wheel ev st) = ed_dirty st" "ed_id (editor_wheel ev st) = ed_id st"
  "ed_stamp (editor_wheel ev st) = ed_stamp st"
  by (cases ev; simp add: Let_def)+

subsection \<open>Typing\<close>

lemma memmove_up:
  "memmove (a @ b @ x # r) (length a + 1) (length a) (length b) = Some (a @ hd (b @ [x]) # b @ r)"
  by (cases b) (simp_all add: memmove_def)

lemma put_byte_text:
  assumes "ed_buf st = a @ b @ x # r" and "ed_cursor st = length a" and "ed_len st = length a + length b"
  shows "put_byte c st = Some (st\<lparr>ed_buf := a @ c # b @ r, ed_len := ed_len st + 1,
    ed_cursor := ed_cursor st + 1, ed_dirty := 1\<rparr>)"
  using assms memmove_up[of a b x r] by (simp add: put_byte_def store_byte_def list_update_append)

lemma grow_buffer_ok:
  assumes "editor_inv st" and "in_realloc inp = Some junk"
  obtains st1 where "grow_buffer inp st = Some st1" and "editor_inv st1" and "ed_len st1 + 2 \<le> ed_size st1"
    and "ed_text st1 = ed_text st" and "ed_len st1 = ed_len st" and "ed_cursor st1 = ed_cursor st"
    and "ed_id st1 = ed_id st" and "ed_stamp st1 = ed_stamp st"
proof (cases "ed_len st + 1 \<ge> ed_size st")
  case False
  then show thesis using assms that[of st] by (simp add: grow_buffer_def)
next
  case True
  define m where "m = take (ed_size st * 2) (ed_buf st) @ map junk [length (ed_buf st)..<ed_size st * 2]"
  let ?st = "st\<lparr>ed_buf := m, ed_size := ed_size st * 2\<rparr>"
  have "grow_buffer inp st = Some ?st"
    using True assms(2) by (simp add: grow_buffer_def realloc_def m_def)
  moreover have t: "ed_text ?st = ed_text st"
    using assms(1) by (simp add: ed_text_def m_def editor_inv_def)
  moreover have "editor_inv ?st" "ed_len ?st + 2 \<le> ed_size ?st"
    using assms(1) t by (auto simp: editor_inv_def m_def)
  ultimately show thesis using that[of ?st] by simp
qed

lemma put_byte_ok:
  assumes "editor_inv st" and "ed_len st + 2 \<le> ed_size st" and "c \<noteq> CHR 0x00"
  obtains st2 where "put_byte c st = Some st2" and "editor_inv st2" and "content st2 = ins c (content st)"
    and "ed_dirty st2 = 1" and "ed_id st2 = ed_id st" and "ed_stamp st2 = ed_stamp st"
proof -
  obtain x r where b: "ed_buf st = ed_text st @ x # r" using editor_block[OF assms(1)] .
  define p where "p = take (ed_cursor st) (ed_text st)"
  define q where "q = drop (ed_cursor st) (ed_text st)"
  have len: "length p = ed_cursor st" "length p + length q = ed_len st" "ed_text st = p @ q"
    using assms(1) length_ed_text[OF assms(1)] by (simp_all add: p_def q_def editor_inv_def)
  let ?st = "st\<lparr>ed_buf := p @ c # q @ r, ed_len := ed_len st + 1, ed_cursor := ed_cursor st + 1, ed_dirty := 1\<rparr>"
  have "put_byte c st = Some ?st"
    using put_byte_text[of st p q x r c] b len by simp
  moreover have t: "ed_text ?st = p @ c # q"
    by (simp add: ed_text_def flip: len(1,2))
  moreover have "content ?st = ins c (content st)"
    using t by (simp add: content_def ins_def p_def q_def)
  moreover have "length (ed_buf st) = Suc (length (p @ q @ r))" using b len by simp
  then have "editor_inv ?st"
    using assms t len unfolding editor_inv_def by auto
  ultimately show thesis using that[of ?st] by simp
qed

lemma editor_type_ok:
  assumes "editor_inv st" and "in_realloc inp = Some junk" and "c \<noteq> CHR 0x00"
  obtains st2 where "editor_type inp c st = Next st2" and "editor_inv st2"
    and "content st2 = ins c (content st)"
    and "ed_dirty st2 = 1" and "ed_id st2 = ed_id st" and "ed_stamp st2 = ed_stamp st"
proof -
  obtain st1 where g: "grow_buffer inp st = Some st1" "editor_inv st1" "ed_len st1 + 2 \<le> ed_size st1"
    "content st1 = content st" "ed_id st1 = ed_id st" "ed_stamp st1 = ed_stamp st"
    by (rule grow_buffer_ok[OF assms(1,2)]) (simp add: content_def)
  obtain st2 where "put_byte c st1 = Some st2" "editor_inv st2" "content st2 = ins c (content st1)"
    "ed_dirty st2 = 1" "ed_id st2 = ed_id st1" "ed_stamp st2 = ed_stamp st1"
    using put_byte_ok[OF g(2,3) assms(3)] .
  then show thesis using g that[of st2] by (simp add: editor_type_def)
qed

lemma editor_type_cases:
  assumes "editor_inv st" and "c \<noteq> CHR 0x00"
  shows "editor_type inp c st = Leave st \<or>
    (\<exists>st2. editor_type inp c st = Next st2 \<and> editor_inv st2 \<and> content st2 = ins c (content st) \<and>
      ed_id st2 = ed_id st \<and> ed_stamp st2 = ed_stamp st)"
proof (cases "in_realloc inp")
  case (Some junk)
  show ?thesis using editor_type_ok[OF assms(1) Some assms(2)] by metis
next
  case None
  show ?thesis
  proof (cases "ed_len st + 1 \<ge> ed_size st")
    case True
    then show ?thesis using None by (simp add: editor_type_def grow_buffer_def realloc_def)
  next
    case False
    then have "ed_len st + 2 \<le> ed_size st" by simp
    then obtain st2 where "put_byte c st = Some st2" "editor_inv st2" "content st2 = ins c (content st)"
      "ed_id st2 = ed_id st" "ed_stamp st2 = ed_stamp st"
      using put_byte_ok[OF assms(1) _ assms(2)] by metis
    then show ?thesis using False by (simp add: editor_type_def grow_buffer_def)
  qed
qed

subsection \<open>Removing a character\<close>

lemma char_start_le: "char_start buf k \<le> k"
  by (induction k) auto

lemma char_start_lead: "char_start buf k = 0 \<or> \<not> u8_is_cont (buf ! char_start buf k)"
  by (induction k) auto

lemma char_start_cont: "char_start buf k < j \<Longrightarrow> j \<le> k \<Longrightarrow> u8_is_cont (buf ! j)"
  by (induction k) (auto simp: le_Suc_eq split: if_splits)

lemma memmove_down:
  "memmove (a @ b @ c @ r) (length a) (length a + length b) (length c) =
     Some (a @ c @ drop (length c) (b @ c @ r))"
  by (simp add: memmove_def)

lemma cut_text:
  assumes "editor_inv st" and "ed_text st = a @ b @ c"
    and "ed_cursor st' = length a" and "ed_len st' = length a + length c"
    and "ed_buf st' = a @ c @ drop (length c) (b @ c @ drop (ed_len st) (ed_buf st))"
    and "ed_size st' = ed_size st"
  shows "editor_inv st' \<and> content st' = (a @ c, length a)"
proof -
  have len: "ed_len st = length a + length b + length c"
    using length_ed_text[OF assms(1)] assms(2) by simp
  have t: "ed_text st' = a @ c" using assms(4,5) by (simp add: ed_text_def)
  have "length (ed_buf st') = length (ed_buf st)"
    using assms(1) len by (simp add: assms(5) editor_inv_def) arith
  then show ?thesis
    using assms t len by (auto simp: editor_inv_def content_def)
qed

lemma editor_buf_text: "ed_buf st = ed_text st @ drop (ed_len st) (ed_buf st)"
  by (simp add: ed_text_def)

lemma editor_backspace_ok:
  assumes "editor_inv st"
  obtains st' where "editor_backspace st = Some st'" and "editor_inv st'"
    and "content st' = (let k = ed_cursor st; j = (if k = 0 then 0 else char_start (ed_buf st) (k - 1)) in
           (take j (ed_text st) @ drop k (ed_text st), j))"
    and "ed_id st' = ed_id st" and "ed_stamp st' = ed_stamp st"
proof (cases "ed_cursor st = 0")
  case True
  then show thesis using that[of st] assms by (simp add: editor_backspace_def content_def Let_def)
next
  case False
  define k where "k = ed_cursor st"
  define j where "j = char_start (ed_buf st) (k - Suc 0)"
  have j: "j < k" using char_start_le[of "ed_buf st" "k - Suc 0"] False by (auto simp: j_def k_def)
  have k: "k \<le> ed_len st" using assms by (simp add: k_def editor_inv_def)
  define a b c where "a = take j (ed_text st)" and "b = drop j (take k (ed_text st))" and "c = drop k (ed_text st)"
  note len = length_ed_text[OF assms]
  have abc: "ed_text st = a @ b @ c" "length a = j" "length a + length b = k" "length c = ed_len st - k"
    using j k len
    by (simp_all add: a_def b_def c_def) (metis append_assoc append_take_drop_id less_imp_le min.absorb1 take_take)
  let ?st = "st\<lparr>ed_buf := a @ c @ drop (length c) (b @ c @ drop (ed_len st) (ed_buf st)),
    ed_len := ed_len st - (k - j), ed_cursor := j, ed_dirty := 1\<rparr>"
  have "memmove (ed_buf st) j k (ed_len st - k) =
      Some (a @ c @ drop (length c) (b @ c @ drop (ed_len st) (ed_buf st)))"
    using memmove_down[of a b c "drop (ed_len st) (ed_buf st)"] abc
    by (subst editor_buf_text) simp
  then have "editor_backspace st = Some ?st"
    using False j k by (simp add: editor_backspace_def Let_def flip: k_def j_def)
  moreover have "editor_inv ?st \<and> content ?st = (a @ c, length a)"
    using abc j k by (intro cut_text[OF assms abc(1)]) simp_all
  moreover have "(a @ c, length a) = (let k = ed_cursor st;
      j = (if k = 0 then 0 else char_start (ed_buf st) (k - 1)) in
      (take j (ed_text st) @ drop k (ed_text st), j))"
    unfolding abc(2) using False by (simp add: a_def c_def j_def k_def Let_def)
  ultimately show thesis using that[of ?st] by simp
qed

lemma editor_delete_ok:
  assumes "editor_inv st"
  obtains st' where "editor_delete st = Some st'" and "editor_inv st'"
    and "content st' = (let k = ed_cursor st;
             n = (if k < ed_len st then u8_char_len (ed_buf st) (ed_len st) k else 0) in
           (take k (ed_text st) @ drop (k + n) (ed_text st), k))"
    and "ed_id st' = ed_id st" and "ed_stamp st' = ed_stamp st"
proof (cases "ed_cursor st < ed_len st")
  case False
  then show thesis using that[of st] assms by (simp add: editor_delete_def content_def Let_def)
next
  case True
  define k where "k = ed_cursor st"
  define n where "n = u8_char_len (ed_buf st) (ed_len st) k"
  have n: "k + n \<le> ed_len st" using True u8_char_len_bound by (simp add: n_def k_def)
  define a b c where "a = take k (ed_text st)" and "b = drop k (take (k + n) (ed_text st))"
    and "c = drop (k + n) (ed_text st)"
  note len = length_ed_text[OF assms]
  have abc: "ed_text st = a @ b @ c" "length a = k" "length b = n" "length c = ed_len st - (k + n)"
    using n len
    by (simp_all add: a_def b_def c_def) (metis append_assoc append_take_drop_id le_add1 min.absorb1 take_take)
  let ?st = "st\<lparr>ed_buf := a @ c @ drop (length c) (b @ c @ drop (ed_len st) (ed_buf st)),
    ed_len := ed_len st - n, ed_dirty := 1\<rparr>"
  have "memmove (ed_buf st) k (k + n) (ed_len st - k - n) =
      Some (a @ c @ drop (length c) (b @ c @ drop (ed_len st) (ed_buf st)))"
    using memmove_down[of a b c "drop (ed_len st) (ed_buf st)"] abc
    by (subst editor_buf_text) simp
  then have "editor_delete st = Some ?st"
    using True n by (simp add: editor_delete_def Let_def flip: k_def n_def)
  moreover have "editor_inv ?st \<and> content ?st = (a @ c, length a)"
    using abc n by (intro cut_text[OF assms abc(1)]) (simp_all add: k_def)
  moreover have "(a @ c, length a) = (let k = ed_cursor st;
      n = (if k < ed_len st then u8_char_len (ed_buf st) (ed_len st) k else 0) in
      (take k (ed_text st) @ drop (k + n) (ed_text st), k))"
    unfolding abc(2) using True by (simp add: a_def c_def n_def k_def Let_def)
  ultimately show thesis using that[of ?st] by simp
qed

end
