(* ===== verification/EditorSteps.thy ===== *)
theory EditorSteps
  imports EditorProps
begin

text \<open>
  The editor turn by turn: what a key does, when a turn is undefined, what it sends and what it writes.
\<close>

subsection \<open>Keys\<close>

text \<open>The function keys no branch takes in this state.\<close>

fun unhandled :: "key \<Rightarrow> editor \<Rightarrow> bool" where
  "unhandled KEY_LEFT st \<longleftrightarrow> ed_cursor st = 0"
| "unhandled KEY_RIGHT st \<longleftrightarrow> ed_len st \<le> ed_cursor st"
| "unhandled (KEY_F n) st \<longleftrightarrow> n \<noteq> 2"
| "unhandled Other_Key st \<longleftrightarrow> True"
| "unhandled _ st \<longleftrightarrow> False"

definition goto_vpos :: "ui_input \<Rightarrow> int \<Rightarrow> int \<Rightarrow> editor \<Rightarrow> editor" where
  "goto_vpos inp vr vc st = st\<lparr>ed_cursor := vpos_to_idx (ed_buf st) (ed_len st) (in_cols inp) vr vc\<rparr>"

definition esc_status :: string where
  "esc_status = snprintf 128 ''Unsaved changes. Press ESC again to discard, Ctrl+S to save.''"

fun saves :: "key \<Rightarrow> bool" where
  "saves (Byte c) \<longleftrightarrow> c = CHR 0x13 \<or> c = CHR 0x17"
| "saves (KEY_F n) \<longleftrightarrow> n = 2"
| "saves _ \<longleftrightarrow> False"

fun key_char :: "key \<Rightarrow> char option" where
  "key_char KEY_ENTER = Some (CHR 0x0A)"
| "key_char (Byte c) = (if c = CHR 0x0A \<or> c = CHR 0x0D then Some (CHR 0x0A)
     else if typed_byte c then Some c else None)"
| "key_char _ = None"

fun rubs :: "key \<Rightarrow> bool" where
  "rubs KEY_BACKSPACE \<longleftrightarrow> True"
| "rubs (Byte c) \<longleftrightarrow> c = CHR 0x7F \<or> c = CHR 0x08"
| "rubs _ \<longleftrightarrow> False"

lemma key_char_nul: "key_char ch = Some c \<Longrightarrow> c \<noteq> CHR 0x00"
  by (cases ch) (auto simp: typed_byte_def split: if_splits)

lemma typed_byte_not: "\<not> typed_byte (CHR 0x13)" "\<not> typed_byte (CHR 0x17)" "\<not> typed_byte (CHR 0x1B)"
  "\<not> typed_byte (CHR 0x7F)" "\<not> typed_byte (CHR 0x08)"
  by (simp_all add: typed_byte_def)

lemma editor_key_saves: "saves ch \<Longrightarrow> editor_key env inp ch s = editor_save env inp s"
  by (cases ch) (auto simp: editor_key_def Let_def split: prod.split)

lemma editor_key_types:
  "key_char ch = Some c \<Longrightarrow> editor_key env inp ch (st, w) =
     map_outcome (\<lambda>st. (st, w)) (editor_type inp c st)"
  using typed_byte_not
  by (cases ch) (auto simp: editor_key_def Let_def split: prod.split if_splits)

lemma editor_key_rubs: "rubs ch \<Longrightarrow> editor_key env inp ch (st, w) = as_turn w (editor_backspace st)"
  by (cases ch) (auto simp: editor_key_def Let_def split: prod.split)

lemma editor_key_esc:
  "editor_key env inp (Byte (CHR 0x1B)) (st, w) =
     (if ed_dirty st \<noteq> 0 then Next (st\<lparr>ed_status := esc_status, ed_dirty := -1\<rparr>, w) else Leave (st, w))"
  by (simp add: editor_key_def esc_status_def split: prod.split)

lemma editor_key_other:
  "editor_key env inp KEY_UP (st, w) =
     Next (if fst (editor_vpos inp st) > 0
       then goto_vpos inp (fst (editor_vpos inp st) - 1) (snd (editor_vpos inp st)) st else st, w)"
  "editor_key env inp KEY_DOWN (st, w) =
     Next (goto_vpos inp (fst (editor_vpos inp st) + 1) (snd (editor_vpos inp st)) st, w)"
  "editor_key env inp KEY_HOME (st, w) = Next (goto_vpos inp (fst (editor_vpos inp st)) 0 st, w)"
  "editor_key env inp KEY_END (st, w) =
     Next (goto_vpos inp (fst (editor_vpos inp st)) (in_cols inp) st, w)"
  "editor_key env inp KEY_LEFT (st, w) = (if ed_cursor st > 0
     then Next (st\<lparr>ed_cursor := char_start (ed_buf st) (ed_cursor st - 1)\<rparr>, w) else Undefined)"
  "editor_key env inp KEY_RIGHT (st, w) = (if ed_cursor st < ed_len st
     then Next (st\<lparr>ed_cursor := ed_cursor st + u8_char_len (ed_buf st) (ed_len st) (ed_cursor st)\<rparr>, w)
     else Undefined)"
  "editor_key env inp (KEY_MOUSE ev) (st, w) = Next (editor_wheel ev st, w)"
  "editor_key env inp KEY_DC (st, w) = as_turn w (editor_delete st)"
  "editor_key env inp ERR (st, w) = Next (st, w)"
  "editor_key env inp Other_Key (st, w) = Undefined"
  "n \<noteq> 2 \<Longrightarrow> editor_key env inp (KEY_F n) (st, w) = Undefined"
  by (simp_all add: editor_key_def goto_vpos_def Let_def split: prod.split)

lemma editor_key_ignored:
  "\<not> saves (Byte c) \<Longrightarrow> \<not> rubs (Byte c) \<Longrightarrow> key_char (Byte c) = None \<Longrightarrow> c \<noteq> CHR 0x1B \<Longrightarrow>
   editor_key env inp (Byte c) (st, w) = Next (st, w)"
  by (auto simp: editor_key_def Let_def split: prod.split if_splits)

subsection \<open>What a turn keeps\<close>

lemma editor_inv_cursor: "editor_inv st \<Longrightarrow> k \<le> ed_len st \<Longrightarrow> editor_inv (st\<lparr>ed_cursor := k\<rparr>)"
  by (simp add: editor_inv_def ed_text_def)

lemma editor_inv_flags [simp]:
  "editor_inv (st\<lparr>ed_status := x\<rparr>) = editor_inv st" "editor_inv (st\<lparr>ed_dirty := d\<rparr>) = editor_inv st"
  "editor_inv (st\<lparr>ed_top := t\<rparr>) = editor_inv st" "editor_inv (st\<lparr>ed_id := i\<rparr>) = editor_inv st"
  by (simp_all add: editor_inv_def ed_text_def)

lemma editor_inv_scroll [simp]: "editor_inv (editor_scroll inp st) = editor_inv st"
  by (simp add: editor_scroll_def Let_def)

lemma editor_inv_wheel [simp]: "editor_inv (editor_wheel ev st) = editor_inv st"
  by (cases ev) (auto simp: Let_def)

lemma ed_text_cong: "ed_buf st' = ed_buf st \<Longrightarrow> ed_len st' = ed_len st \<Longrightarrow> ed_text st' = ed_text st"
  by (simp add: ed_text_def)

text \<open>The text as the functions of net.c see it: the buffer up to its first NUL.\<close>

lemma stored_text:
  assumes "editor_inv st"
  obtains m where "store_byte (ed_buf st) (ed_len st) (CHR 0x00) = Some m" and "c_str m = ed_text st"
    and "editor_inv (st\<lparr>ed_buf := m\<rparr>)" and "ed_text (st\<lparr>ed_buf := m\<rparr>) = ed_text st"
    and "take (ed_len st) m = ed_text st"
proof -
  obtain x r where b: "ed_buf st = ed_text st @ x # r" using editor_block[OF assms] .
  define m where "m = ed_text st @ CHR 0x00 # r"
  have n: "length (ed_text st) = ed_len st" by (rule length_ed_text[OF assms])
  have "store_byte (ed_buf st) (ed_len st) (CHR 0x00) = Some m"
    using b n by (simp add: store_byte_def m_def flip: n)
  moreover have "c_str m = ed_text st"
    using assms by (simp add: c_str_def m_def editor_inv_def)
  moreover have t: "ed_text (st\<lparr>ed_buf := m\<rparr>) = ed_text st" "take (ed_len st) m = ed_text st"
    using n by (simp_all add: ed_text_def[of "ed_buf_update _ _"] m_def)
  moreover have "editor_inv (st\<lparr>ed_buf := m\<rparr>)"
    using assms b t by (simp add: editor_inv_def m_def)
  ultimately show thesis using that by blast
qed

text \<open>What saving did to the connection: the result of the function of net.c that was called.\<close>

definition save_call :: "'w ui_env \<Rightarrow> editor \<Rightarrow> 'w \<Rightarrow> int \<times> 'w" where
  "save_call env st net =
     (if ed_id st > 0 then net_update_entry (ue_proto env) (ed_id st) (ed_text st) net
      else net_post_entry (ue_proto env) (ed_text st) (ue_entry_at env) net)"

lemma net_c_str:
  "c_str a = c_str b \<Longrightarrow> net_update_entry P i a w = net_update_entry P i b w"
  "c_str a = c_str b \<Longrightarrow> net_post_entry P a t w = net_post_entry P b t w"
  by (simp_all add: net_update_entry_def net_post_entry_def)

text \<open>What a save does: the connection, the id, the changed mark and the backup file.\<close>

definition save_done :: "'w ui_env \<Rightarrow> ui_input \<Rightarrow> editor \<Rightarrow> 'w world \<Rightarrow> editor \<Rightarrow> 'w world \<Rightarrow> bool" where
  "save_done env inp st w st' w' \<longleftrightarrow>
     (let path = (if ed_id st > 0 then ed_id st else 0);
          written = backup_write inp path (ed_text st) (ed_len st) (wo_disk w);
          (i, net) = save_call env st (wo_net w) in
      wo_net w' = net \<and>
      (if i > 0 then ed_dirty st' = 0 \<and> ed_id st' = (if ed_id st \<le> 0 then i else ed_id st) \<and>
         wo_disk w' = backup_remove inp path written
       else ed_dirty st' = ed_dirty st \<and> ed_id st' = ed_id st \<and> wo_disk w' = written))"

lemma editor_save_spec:
  assumes "editor_inv st" and "\<not> (ed_dirty st = 0 \<and> ed_id st > 0)"
  obtains st' w' where "editor_save env inp (st, w) = Next (st', w')" and "editor_inv st'"
    and "content st' = content st" and "ed_stamp st' = ed_stamp st"
    and "wo_ixon w' = wo_ixon w" and "wo_frame w' = wo_frame w" and "save_done env inp st w st' w'"
proof -
  obtain m where m: "store_byte (ed_buf st) (ed_len st) (CHR 0x00) = Some m" "c_str m = ed_text st"
    "editor_inv (st\<lparr>ed_buf := m\<rparr>)" "ed_text (st\<lparr>ed_buf := m\<rparr>) = ed_text st" "take (ed_len st) m = ed_text st"
    using stored_text[OF assms(1)] .
  define path where "path = (if ed_id st > 0 then ed_id st else 0)"
  obtain i net where c: "save_call env st (wo_net w) = (i, net)" by force
  have cs: "c_str m = c_str (ed_text st)"
    using m(2) assms(1) by (simp add: c_str_id editor_inv_def)
  have call: "(if ed_id st > 0 then net_update_entry (ue_proto env) (ed_id st) m (wo_net w)
      else net_post_entry (ue_proto env) m (ue_entry_at env) (wo_net w)) = (i, net)"
    using c by (simp add: save_call_def net_c_str[OF cs] split: if_splits)
  have disk: "backup_write inp path m (ed_len st) (wo_disk w) =
      backup_write inp path (ed_text st) (ed_len st) (wo_disk w)"
    by (simp add: backup_write_def take_take flip: m(5))
  define st' where "st' = (if i > 0
    then st\<lparr>ed_buf := m, ed_id := (if ed_id st \<le> 0 then i else ed_id st), ed_dirty := 0,
      ed_status := snprintf 128 ''Saved.''\<rparr>
    else st\<lparr>ed_buf := m, ed_status := snprintf 128 (''Save failed. Backup: '' @
      (if ed_id st > 0 then ''diary_X.tmp'' else ''diary_new.tmp''))\<rparr>)"
  define w' where "w' = w\<lparr>wo_net := net, wo_disk := (if i > 0
    then backup_remove inp path (backup_write inp path (ed_text st) (ed_len st) (wo_disk w))
    else backup_write inp path (ed_text st) (ed_len st) (wo_disk w))\<rparr>"
  have "editor_save env inp (st, w) = Next (st', w')"
    using m(1) call assms(2) disk
    by (auto simp: editor_save_def st'_def w'_def path_def Let_def)
  moreover have "editor_inv st'" "content st' = content st" "ed_stamp st' = ed_stamp st"
    using m(3,4) by (auto simp: st'_def content_def editor_inv_def ed_text_def)
  moreover have "save_done env inp st w st' w'"
    using c by (simp add: save_done_def st'_def w'_def path_def)
  ultimately show thesis using that by (simp add: w'_def)
qed


subsection \<open>One turn\<close>

text \<open>What every turn keeps, whatever the key: the invariant, the date, the terminal, an id once it is given.\<close>

definition keeps :: "editor \<times> 'w world \<Rightarrow> editor \<times> 'w world \<Rightarrow> bool" where
  "keeps s s' \<longleftrightarrow> editor_inv (fst s') \<and> ed_stamp (fst s') = ed_stamp (fst s) \<and>
     wo_ixon (snd s') = wo_ixon (snd s) \<and> (ed_id (fst s) > 0 \<longrightarrow> ed_id (fst s') = ed_id (fst s))"

text \<open>What a turn that does not save leaves alone.\<close>

definition quiet :: "editor \<times> 'w world \<Rightarrow> editor \<times> 'w world \<Rightarrow> bool" where
  "quiet s s' \<longleftrightarrow> wo_net (snd s') = wo_net (snd s) \<and> wo_disk (snd s') = wo_disk (snd s) \<and>
     ed_id (fst s') = ed_id (fst s)"

lemma save_keeps:
  assumes "editor_inv st"
  obtains s' where "editor_save env inp (st, w) = Next s'" and "keeps (st, w) s'"
    and "content (fst s') = content st"
    and "if ed_dirty st = 0 \<and> ed_id st > 0 then quiet (st, w) s' \<and> ed_dirty (fst s') = 0
      else save_done env inp st w (fst s') (snd s')"
proof (cases "ed_dirty st = 0 \<and> ed_id st > 0")
  case True
  let ?s = "(st\<lparr>ed_status := snprintf 128 ''No changes.''\<rparr>, w)"
  have "editor_save env inp (st, w) = Next ?s" using True by (simp add: editor_save_def)
  then show thesis
    using True assms that[of ?s] by (simp add: keeps_def quiet_def content_def ed_text_def)
next
  case False
  obtain st' w' where r: "editor_save env inp (st, w) = Next (st', w')" "editor_inv st'"
    "content st' = content st" "ed_stamp st' = ed_stamp st" "wo_ixon w' = wo_ixon w"
    "save_done env inp st w st' w'"
    by (rule editor_save_spec[OF assms False])
  moreover have "ed_id st > 0 \<longrightarrow> ed_id st' = ed_id st"
    using r(6) by (auto simp: save_done_def Let_def split: prod.splits if_splits)
  ultimately show thesis using that[of "(st', w')"] False by (simp add: keeps_def)
qed

text \<open>The classes of keys that do not save, as the tests of the code tell them apart.\<close>

lemma tested_key:
  obtains (types) c where "key_char ch = Some c"
  | (rubs) "rubs ch"
  | (escape) "ch = Byte (CHR 0x1B)"
  | (ignored) c where "ch = Byte c" "\<not> rubs ch" "key_char ch = None" "c \<noteq> CHR 0x1B"
  | (motion) "key_char ch = None" "\<not> rubs ch" "\<forall>c. ch \<noteq> Byte c"
  by (cases ch) auto

lemma key_keeps:
  assumes "editor_inv st" and "\<not> saves ch"
  shows "(case editor_key env inp ch (st, w) of
      Undefined \<Rightarrow> unhandled ch st
    | Leave s' \<Rightarrow> \<not> unhandled ch st \<and> s' = (st, w)
    | Next s' \<Rightarrow> \<not> unhandled ch st \<and> keeps (st, w) s' \<and> quiet (st, w) s')"
proof -
  have inv: "ed_cursor st \<le> ed_len st" using assms(1) by (simp add: editor_inv_def)
  show ?thesis
  proof (cases ch rule: tested_key)
    case (types c)
    then have "\<not> unhandled ch st" by (cases ch) auto
    then show ?thesis
      using editor_type_cases[OF assms(1) key_char_nul[OF types], of inp] types
      by (auto simp: editor_key_types keeps_def quiet_def)
  next
    case rubs
    then have "\<not> unhandled ch st" by (cases ch) auto
    obtain st' where "editor_backspace st = Some st'" "editor_inv st'" "ed_id st' = ed_id st"
      "ed_stamp st' = ed_stamp st"
      by (rule editor_backspace_ok[OF assms(1)])
    with \<open>\<not> unhandled ch st\<close> rubs show ?thesis
      by (simp add: editor_key_rubs as_turn_def keeps_def quiet_def)
  next
    case escape
    then show ?thesis using assms(1) by (simp add: editor_key_esc keeps_def quiet_def)
  next
    case (ignored c)
    then show ?thesis using assms by (simp add: editor_key_ignored keeps_def quiet_def)
  next
    case motion
    show ?thesis
    proof (cases ch)
      case KEY_DC
      obtain st' where "editor_delete st = Some st'" "editor_inv st'" "ed_id st' = ed_id st"
        "ed_stamp st' = ed_stamp st"
        by (rule editor_delete_ok[OF assms(1)])
      with KEY_DC show ?thesis by (simp add: editor_key_other as_turn_def keeps_def quiet_def)
    next
      case (KEY_F n)
      then show ?thesis using assms(2) by (simp add: editor_key_other)
    next
      case KEY_RIGHT
      show ?thesis
        using KEY_RIGHT assms(1) inv u8_char_len_bound[of "ed_cursor st" "ed_len st" "ed_buf st"]
        by (auto simp: editor_key_other keeps_def quiet_def editor_inv_cursor)
    next
      case KEY_LEFT
      show ?thesis
        using KEY_LEFT assms(1) inv char_start_le[of "ed_buf st" "ed_cursor st - 1"]
        by (auto simp: editor_key_other keeps_def quiet_def intro!: editor_inv_cursor)
    qed (use motion assms(1) in \<open>auto simp: editor_key_other keeps_def quiet_def goto_vpos_def
          intro!: editor_inv_cursor\<close>)
  qed
qed


text \<open>The state a turn starts from once it is drawn, and the key it takes.\<close>

definition drawn :: "ui_input \<Rightarrow> string \<Rightarrow> editor \<times> 'w world \<Rightarrow> editor \<times> 'w world" where
  "drawn inp ts s = ((editor_scroll inp (fst s))\<lparr>ed_status := []\<rparr>,
     (snd s)\<lparr>wo_frame := editor_frame inp (editor_scroll inp (fst s)) ts\<rparr>)"

definition turn_key :: "ui_input \<Rightarrow> key" where
  "turn_key inp = (if in_key inp = ERR then Byte (CHR 0x13) else in_key inp)"

lemma drawn_simps [simp]:
  "ed_buf (fst (drawn inp ts s)) = ed_buf (fst s)" "ed_len (fst (drawn inp ts s)) = ed_len (fst s)"
  "ed_cursor (fst (drawn inp ts s)) = ed_cursor (fst s)" "ed_dirty (fst (drawn inp ts s)) = ed_dirty (fst s)"
  "ed_id (fst (drawn inp ts s)) = ed_id (fst s)" "ed_stamp (fst (drawn inp ts s)) = ed_stamp (fst s)"
  "ed_text (fst (drawn inp ts s)) = ed_text (fst s)" "content (fst (drawn inp ts s)) = content (fst s)"
  "editor_inv (fst (drawn inp ts s)) = editor_inv (fst s)"
  "wo_net (snd (drawn inp ts s)) = wo_net (snd s)" "wo_disk (snd (drawn inp ts s)) = wo_disk (snd s)"
  "wo_ixon (snd (drawn inp ts s)) = wo_ixon (snd s)"
  by (simp_all add: drawn_def content_def ed_text_def)

lemma editor_step_drawn:
  assumes "format_ts env (ed_stamp (fst s)) = Some ts"
  shows "editor_step env inp s =
    (if in_key inp = ERR \<and> ed_dirty (fst s) = 0 then Next (drawn inp ts s)
     else editor_key env inp (turn_key inp) (drawn inp ts s))"
  using assms by (cases s) (simp add: editor_step_def drawn_def turn_key_def Let_def)

lemma editor_step_dated:
  "editor_step env inp s = Next s' \<or> editor_step env inp s = Leave s' \<Longrightarrow>
   \<exists>ts. format_ts env (ed_stamp (fst s)) = Some ts"
  by (cases s; cases "format_ts env (ed_stamp (fst s))") (auto simp: editor_step_def Let_def)

lemma unhandled_drawn: "unhandled ch (fst (drawn inp ts s)) = unhandled ch (fst s)"
  by (cases ch) auto

lemma drawn_keeps: "editor_inv (fst s) \<Longrightarrow> keeps s (drawn inp ts s) \<and> quiet s (drawn inp ts s)"
  by (simp add: keeps_def quiet_def)

lemma drawn_trans:
  "keeps (drawn inp ts s) s' \<Longrightarrow> keeps s s'" "quiet (drawn inp ts s) s' \<Longrightarrow> quiet s s'"
  by (simp_all add: keeps_def quiet_def)

text \<open>The one description of a turn the properties rest on.\<close>

lemma editor_turn:
  assumes "editor_inv (fst s)" and "format_ts env (ed_stamp (fst s)) = Some ts"
  shows "(case editor_step env inp s of
      Undefined \<Rightarrow> unhandled (in_key inp) (fst s)
    | Leave s' \<Rightarrow> \<not> unhandled (in_key inp) (fst s) \<and> keeps s s' \<and> quiet s s'
    | Next s' \<Rightarrow> \<not> unhandled (in_key inp) (fst s) \<and> keeps s s' \<and>
        (quiet s s' \<or> (saves (turn_key inp) \<and> content (fst s') = content (fst s) \<and>
           \<not> (ed_dirty (fst s) = 0 \<and> ed_id (fst s) > 0) \<and>
           save_done env inp (fst s) (snd (drawn inp ts s)) (fst s') (snd s'))))"
proof (cases "in_key inp = ERR \<and> ed_dirty (fst s) = 0")
  case True
  then show ?thesis
    using drawn_keeps[OF assms(1)] by (simp add: editor_step_drawn[OF assms(2)])
next
  case False
  obtain st w where d: "drawn inp ts s = (st, w)" by force
  then have stw: "st = fst (drawn inp ts s)" "w = snd (drawn inp ts s)" by simp_all
  have inv: "editor_inv st" using assms(1) by (simp add: stw)
  have step: "editor_step env inp s = editor_key env inp (turn_key inp) (st, w)"
    using False d by (auto simp: editor_step_drawn[OF assms(2)])
  have u: "unhandled (turn_key inp) st = unhandled (in_key inp) (fst s)"
    using unhandled_drawn[of "in_key inp" inp ts s] d by (cases "in_key inp = ERR") (auto simp: turn_key_def)
  show ?thesis
  proof (cases "saves (turn_key inp)")
    case True
    obtain s' where r: "editor_save env inp (st, w) = Next s'" "keeps (st, w) s'"
      "content (fst s') = content st"
      "if ed_dirty st = 0 \<and> ed_id st > 0 then quiet (st, w) s' \<and> ed_dirty (fst s') = 0
       else save_done env inp st w (fst s') (snd s')"
      by (rule save_keeps[OF inv])
    have "\<not> unhandled (in_key inp) (fst s)"
      using True u by (cases "turn_key inp") auto
    moreover have "save_done env inp st w (fst s') (snd s') = save_done env inp (fst s) w (fst s') (snd s')"
      by (simp add: save_done_def save_call_def stw Let_def split: prod.split)
    ultimately show ?thesis
      using r drawn_trans[of inp ts s s'] drawn_simps(4,5,8)[of inp ts s] True
      unfolding step editor_key_saves[OF True] by (auto simp: d split: if_splits)
  next
    case False
    show ?thesis
      using key_keeps[OF inv False, where env = env and inp = inp and w = w] u drawn_trans[of inp ts s] drawn_keeps[OF assms(1), of inp ts]
      unfolding step by (auto simp: d split: outcome.splits)
  qed
qed

text \<open>A whole loop, from its turns.\<close>

lemma editor_loop_keeps:
  assumes "editor_inv (fst s)" and "editor_loop env inps s = (r, rest)" and "r = Next s' \<or> r = Leave s'"
  shows "keeps s s'"
proof (rule run_turns_inv[of "keeps s", OF _ _ assms(2)[unfolded editor_loop_def] assms(3)])
  fix inp s1 s2
  assume k: "keeps s s1" and n: "editor_step env inp s1 = Next s2 \<or> editor_step env inp s1 = Leave s2"
  have "editor_inv (fst s1)" using k by (simp add: keeps_def)
  moreover obtain ts where "format_ts env (ed_stamp (fst s1)) = Some ts"
    using editor_step_dated[OF n] by blast
  ultimately have "keeps s1 s2" using editor_turn[of s1 env ts inp] n by auto
  then show "keeps s s2" using k by (auto simp: keeps_def)
next
  show "keeps s s" using assms(1) by (simp add: keeps_def)
qed

subsection \<open>Typing runs\<close>

text \<open>
  The contract of an interactive text field: a turn with an input that types a character puts it at the
  cursor and touches nothing else. Its client is a user who types a text.
\<close>

definition put_text :: "bytes \<Rightarrow> bytes \<times> nat \<Rightarrow> bytes \<times> nat" where
  "put_text cs tk = (take (snd tk) (fst tk) @ cs @ drop (snd tk) (fst tk), snd tk + length cs)"

locale typing =
  fixes turn :: "'i \<Rightarrow> 's \<Rightarrow> 's outcome" and good :: "'s \<Rightarrow> bool" and field :: "'s \<Rightarrow> bytes \<times> nat"
    and others :: "'s \<Rightarrow> 'r" and types :: "'i \<Rightarrow> char option"
  assumes cursor_in: "good s \<Longrightarrow> snd (field s) \<le> length (fst (field s))"
    and types_next: "good s \<Longrightarrow> types i = Some c \<Longrightarrow>
      \<exists>s'. turn i s = Next s' \<and> good s' \<and> field s' = ins c (field s) \<and> others s' = others s"
begin

lemma typed_all:
  "good s \<Longrightarrow> list_all2 (\<lambda>i c. types i = Some c) is cs \<Longrightarrow>
   \<exists>s'. run_turns turn is s = (Next s', []) \<and> good s' \<and> field s' = put_text cs (field s) \<and>
     others s' = others s"
proof (induction "is" arbitrary: s cs)
  case Nil
  then show ?case by (cases "field s") (simp add: put_text_def)
next
  case (Cons i "is")
  then obtain c cs' where cs: "cs = c # cs'" "types i = Some c" "list_all2 (\<lambda>i c. types i = Some c) is cs'"
    by (auto simp: list_all2_Cons1)
  obtain s1 where s1: "turn i s = Next s1" "good s1" "field s1 = ins c (field s)" "others s1 = others s"
    using types_next[OF Cons.prems(1) cs(2)] by blast
  obtain s' where s': "run_turns turn is s1 = (Next s', [])" "good s'" "field s' = put_text cs' (field s1)"
    "others s' = others s1"
    using Cons.IH[OF s1(2) cs(3)] by blast
  have "put_text cs' (ins c (field s)) = put_text cs (field s)"
    using cursor_in[OF Cons.prems(1)] cs(1) by (simp add: put_text_def ins_def)
  then show ?case using s1 s' by simp
qed

end

definition input_types :: "ui_input \<Rightarrow> char option" where
  "input_types inp = (if in_realloc inp = None then None else key_char (in_key inp))"

definition editor_ready :: "'w ui_env \<Rightarrow> editor \<times> 'w world \<Rightarrow> bool" where
  "editor_ready env s \<longleftrightarrow> editor_inv (fst s) \<and> format_ts env (ed_stamp (fst s)) \<noteq> None"

definition editor_others :: "editor \<times> 'w world \<Rightarrow> 'w \<times> disk \<times> bool \<times> int \<times> int" where
  "editor_others s = (wo_net (snd s), wo_disk (snd s), wo_ixon (snd s), ed_id (fst s), ed_stamp (fst s))"

lemma editor_types_next:
  assumes "editor_ready env s" and "input_types inp = Some c"
  shows "\<exists>s'. editor_step env inp s = Next s' \<and> editor_ready env s' \<and>
    content (fst s') = ins c (content (fst s)) \<and> editor_others s' = editor_others s \<and>
    ed_dirty (fst s') = 1"
proof -
  obtain ts where ts: "format_ts env (ed_stamp (fst s)) = Some ts" and inv: "editor_inv (fst s)"
    using assms(1) by (auto simp: editor_ready_def)
  obtain junk where k: "in_realloc inp = Some junk" "key_char (in_key inp) = Some c"
    using assms(2) by (auto simp: input_types_def split: if_splits)
  then have ne: "in_key inp \<noteq> ERR" by auto
  have dinv: "editor_inv (fst (drawn inp ts s))" using inv by simp
  obtain st2 where t: "editor_type inp c (fst (drawn inp ts s)) = Next st2" "editor_inv st2"
    "content st2 = ins c (content (fst (drawn inp ts s)))" "ed_dirty st2 = 1"
    "ed_id st2 = ed_id (fst (drawn inp ts s))" "ed_stamp st2 = ed_stamp (fst (drawn inp ts s))"
    by (rule editor_type_ok[OF dinv k(1) key_char_nul[OF k(2)]])
  have "editor_step env inp s = Next (st2, snd (drawn inp ts s))"
    using ne t(1) editor_key_types[OF k(2), of env inp "fst (drawn inp ts s)" "snd (drawn inp ts s)"]
    by (simp add: editor_step_drawn[OF ts] turn_key_def)
  then show ?thesis
    using t ts by (auto simp: editor_ready_def editor_others_def)
qed

interpretation editor: typing "editor_step env" "editor_ready env" "\<lambda>s. content (fst s)" editor_others
    input_types
proof
  fix s :: "editor \<times> 'a world"
  assume "editor_ready env s"
  then show "snd (content (fst s)) \<le> length (fst (content (fst s)))"
    using length_ed_text[of "fst s"] by (simp add: editor_ready_def content_def editor_inv_def)
next
  fix s :: "editor \<times> 'a world" and i c
  assume "editor_ready env s" and "input_types i = Some c"
  then show "\<exists>s'. editor_step env i s = Next s' \<and> editor_ready env s' \<and>
      content (fst s') = ins c (content (fst s)) \<and> editor_others s' = editor_others s"
    using editor_types_next by blast
qed

subsection \<open>Opening\<close>

lemma grow_size_gt: "0 < sz \<Longrightarrow> n + 1 < grow_size n sz"
  by (induction n sz rule: grow_size.induct) (subst grow_size.simps, auto)

lemma editor_open_new:
  assumes "in_calloc inp"
  obtains st where "editor_open inp i None t = Next st" and "editor_inv st" and "content st = ([], 0)"
    and "ed_id st = i" and "ed_stamp st = t" and "ed_dirty st = 0"
  using assms that by (fastforce simp: editor_open_def editor_inv_def content_def ed_text_def)

lemma editor_open_text:
  assumes "in_realloc inp = Some junk"
  obtains st where "editor_open inp i (Some x) t = Next st" and "editor_inv st"
    and "content st = (c_str x, length (c_str x))"
    and "ed_id st = i" and "ed_stamp st = t" and "ed_dirty st = 0"
proof -
  define sz where "sz = grow_size (length (c_str x)) 4096"
  have sz: "length (c_str x) + 1 < sz" unfolding sz_def by (rule grow_size_gt) simp
  define b where "b = (if in_calloc inp then replicate 4096 (CHR 0x00) else [])"
  obtain m where m: "realloc (in_realloc inp) b sz = Some m" "length m = sz"
    using assms by (auto simp: realloc_def)
  have "editor_open inp i (Some x) t = Next \<lparr>ed_buf = c_str x @ drop (length (c_str x)) m, ed_size = sz,
      ed_len = length (c_str x), ed_cursor = length (c_str x), ed_top = 0, ed_dirty = 0,
      ed_id = i, ed_stamp = t, ed_status = []\<rparr>" (is "_ = Next ?st")
    using m(1) by (simp add: editor_open_def sz_def[symmetric] b_def[symmetric] Let_def)
  moreover have "editor_inv ?st" "content ?st = (c_str x, length (c_str x))"
    using m(2) sz by (simp_all add: editor_inv_def content_def ed_text_def)
  ultimately show thesis using that[of ?st] by simp
qed

text \<open>The text an editor is opened with.\<close>

definition opened_text :: "bytes option \<Rightarrow> bytes" where
  "opened_text x = (case x of None \<Rightarrow> [] | Some y \<Rightarrow> c_str y)"

lemma editor_opened:
  assumes "editor_open inp i x t = Next st" and "in_calloc inp"
  shows "editor_inv st \<and> content st = (opened_text x, length (opened_text x)) \<and> ed_id st = i \<and>
    ed_stamp st = t \<and> ed_dirty st = 0"
proof (cases x)
  case None
  obtain st0 where "editor_open inp i None t = Next st0" "editor_inv st0" "content st0 = ([], 0)"
    "ed_id st0 = i" "ed_stamp st0 = t" "ed_dirty st0 = 0"
    using editor_open_new[OF assms(2)] .
  then show ?thesis using assms(1) None by (simp add: opened_text_def)
next
  case (Some y)
  obtain junk where "in_realloc inp = Some junk"
    using assms(1) Some by (auto simp: editor_open_def realloc_def Let_def split: option.splits)
  from editor_open_text[OF this] obtain st0 where "editor_open inp i (Some y) t = Next st0" "editor_inv st0"
    "content st0 = (c_str y, length (c_str y))" "ed_id st0 = i" "ed_stamp st0 = t" "ed_dirty st0 = 0" .
  then show ?thesis using assms(1) Some by (simp add: opened_text_def)
qed

end
