(* ===== verification/TextClaims.thy ===== *)
theory TextClaims
  imports TextProps
begin

text \<open>
  The properties of cursor movement and of drawing text: what the editor and the viewer rely on.
\<close>

definition demo_text :: bytes where
  "demo_text = ''ab'' @ [CHR 0xC3, CHR 0xA9] @ ''cdef'' @ [CHR 0x0A] @ ''xy''"

lemma demo_text_tidy: "tidy demo_text 11"
proof -
  have "\<forall>i \<in> set [0..<11]. u8_is_cont (demo_text ! i) \<longrightarrow> 0 < i \<and> demo_text ! (i - 1) \<noteq> CHR 0x0A"
    by code_simp
  then show ?thesis by (simp add: tidy_def)
qed

text \<open>
  C18. The cursor can be found again: for every text, every width (also degenerate ones) and every
  index where a character starts, \<open>vpos_to_idx\<close> of the row and column \<open>get_vpos\<close> gives is that index.
\<close>

theorem cursor_roundtrip:
  assumes "boundary buf len i"
  shows "(case get_vpos buf len i cols of (r, c) \<Rightarrow> vpos_to_idx buf len cols r c) = i"
proof -
  obtain r c where p: "pos buf cols i = (r, c)" by force
  have "get_vpos buf len i cols = (r, c)"
    using assms p by (simp add: get_vpos_pos boundary_def min_absorb1)
  then show ?thesis using vpos_to_idx_pos[OF assms p] by simp
qed

theorem cursor_roundtrip_witness:
  "get_vpos demo_text 11 7 4 = (1, 3) \<and> vpos_to_idx demo_text 11 4 1 3 = 7"
proof -
  have "boundary demo_text 11 7" by (simp add: boundary_def demo_text_def u8_is_cont_def)
  then have r: "(case get_vpos demo_text 11 7 4 of (r, c) \<Rightarrow> vpos_to_idx demo_text 11 4 r c) = 7"
    by (rule cursor_roundtrip)
  have "get_vpos demo_text 11 7 4 = (1, 3)" by code_simp
  then show ?thesis using r by simp
qed

text \<open>
  The target index of a vertical move, Home or End: when the text has the wanted row, \<open>vpos_to_idx\<close>
  gives an index on that row where a character starts, and it is at the wanted column or is the last
  index of the row.
\<close>

theorem vpos_to_idx_stays_on_row:
  assumes "k \<le> len" and "fst (get_vpos buf len k cols) = r"
  shows "(let j = vpos_to_idx buf len cols r c in
    boundary buf len j \<and> fst (get_vpos buf len j cols) = r \<and>
    (get_vpos buf len j cols = (r, c) \<or> j = len \<or> fst (get_vpos buf len (j + 1) cols) = r + 1))"
proof -
  let ?j = "vpos_to_idx buf len cols r c"
  have row: "fst (pos buf cols ?j) = r"
    using assms by (intro vpos_to_idx_row) (simp_all add: get_vpos_pos min_absorb1)
  have j: "get_vpos buf len ?j cols = pos buf cols ?j"
    by (simp add: get_vpos_pos min_absorb1)
  have "pos buf cols ?j = (r, c) \<or> ?j = len \<or> fst (pos buf cols (Suc ?j)) = r + 1"
    using vpos_to_idx_first[of buf len cols r c] pos_next_row[of buf ?j cols] row
      vpos_to_idx_le[of buf len cols r c]
    by (auto simp: stops_at_def boundary_def le_less simp del: vpos_to_idx_le)
  moreover have "?j \<noteq> len \<Longrightarrow> get_vpos buf len (?j + 1) cols = pos buf cols (Suc ?j)"
    using vpos_to_idx_le[of buf len cols r c] by (simp add: get_vpos_pos min_absorb1 del: vpos_to_idx_le)
  ultimately show ?thesis using row j by (cases "?j = len") (simp_all add: Let_def boundary_def[of buf len len])
qed

theorem vpos_to_idx_stays_on_row_witness:
  "fst (get_vpos demo_text 11 (vpos_to_idx demo_text 11 4 3 9) 4) = 3"
proof -
  have "fst (get_vpos demo_text 11 10 4) = 3" by code_simp
  from vpos_to_idx_stays_on_row[OF _ this, of 9] show ?thesis by (simp add: Let_def)
qed

text \<open>
  C40. Home on a row that began by wrapping goes to the end of that row: such a row has no index at
  column 0, so \<open>vpos_to_idx\<close> for column 0 falls through to the last index of the row.
\<close>

theorem home_on_wrapped_row:
  assumes "i < len" and "\<not> u8_is_cont (buf ! i)" and "buf ! i \<noteq> CHR 0x0A"
    and "get_vpos buf len i cols = (r, c)" and "cols - 1 \<le> c"
  shows "(let j = vpos_to_idx buf len cols (r + 1) 0 in
    fst (get_vpos buf len j cols) = r + 1 \<and> 0 < snd (get_vpos buf len j cols) \<and>
    (j = len \<or> fst (get_vpos buf len (j + 1) cols) = r + 2))"
proof -
  let ?j = "vpos_to_idx buf len cols (r + 1) 0"
  have p: "pos buf cols i = (r, c)" using assms(1,4) by (simp add: get_vpos_pos min_absorb1)
  then have s: "pos buf cols (Suc i) = (r + 1, 1)"
    using assms(2,3,5) by (simp add: pos_Suc pos_step_def wrap_step_def)
  have row: "fst (pos buf cols ?j) = r + 1"
    using assms(1) s by (intro vpos_to_idx_row[of "Suc i"]) auto
  have "Suc i \<le> ?j" using row p pos_row_mono[of ?j i buf cols] by (cases "Suc i \<le> ?j") auto
  then have col: "0 < snd (pos buf cols ?j)"
    using pos_mono[of "Suc i" ?j buf cols] row unfolding s
    by (cases "pos buf cols ?j") (auto simp: before_def)
  then have "pos buf cols ?j \<noteq> (r + 1, 0)" by auto
  then have "?j = len \<or> fst (pos buf cols (Suc ?j)) = r + 2"
    using vpos_to_idx_first[of buf len cols "r + 1" 0] pos_next_row[of buf ?j cols] row
      vpos_to_idx_le[of buf len cols "r + 1" 0]
    by (auto simp: stops_at_def boundary_def le_less simp del: vpos_to_idx_le)
  moreover have "?j \<noteq> len \<Longrightarrow> min (Suc ?j) len = Suc ?j"
    using vpos_to_idx_le[of buf len cols "r + 1" 0] by (simp del: vpos_to_idx_le)
  ultimately show ?thesis
    using row col by (cases "?j = len") (simp_all add: Let_def get_vpos_pos min_absorb1)
qed

theorem home_on_wrapped_row_witness:
  "fst (get_vpos demo_text 11 (vpos_to_idx demo_text 11 4 1 0) 4) = 1 \<and>
   vpos_to_idx demo_text 11 4 1 0 = 7"
proof -
  have "get_vpos demo_text 11 4 4 = (0, 3)" by code_simp
  from home_on_wrapped_row[OF _ _ _ this]
  have "fst (get_vpos demo_text 11 (vpos_to_idx demo_text 11 4 1 0) 4) = 1"
    by (simp add: demo_text_def u8_is_cont_def Let_def)
  moreover have "vpos_to_idx demo_text 11 4 1 0 = 7" by code_simp
  ultimately show ?thesis by simp
qed

text \<open>
  C32. The drawing loop stays inside the text area of the window, for every byte buffer, width, height
  and scroll position: it writes non-empty characters to rows 1 to \<open>rows - 2\<close> and to columns below
  \<open>cols - 1\<close> (column 0 when the window is narrower than that).
\<close>

theorem draw_in_window:
  assumes "len \<le> length buf" and "(wr, vc, s) \<in> set (draw_text buf len rows cols vtop)"
  shows "1 \<le> wr \<and> wr < rows - 1 \<and> 0 \<le> vc \<and> vc < max 1 (cols - 1) \<and> s \<noteq> []"
  using assms draw_from_window[of len buf "(0, 0)"] by (simp add: draw_text_def)

theorem draw_in_window_witness:
  "draw_text demo_text 11 4 4 1 = [(1, 0, ''c''), (1, 1, ''d''), (1, 2, ''e''), (2, 0, ''f'')] \<and>
   (1::int) \<le> 2 \<and> (2::int) < 4 - 1 \<and> (0::int) < max 1 (4 - 1) \<and> ''f'' \<noteq> []"
proof -
  have d: "draw_text demo_text 11 4 4 1 = [(1, 0, ''c''), (1, 1, ''d''), (1, 2, ''e''), (2, 0, ''f'')]"
    by code_simp
  have "11 \<le> length demo_text" by (simp add: demo_text_def)
  moreover have "(2, 0, ''f'') \<in> set (draw_text demo_text 11 4 4 1)" by (simp add: d)
  ultimately have "11 \<le> length demo_text" "(2, 0, ''f'') \<in> set (draw_text demo_text 11 4 4 1)" .
  from draw_in_window[OF this] show ?thesis unfolding d by blast
qed

text \<open>
  C13. For text of whole characters the drawing loop and the cursor agree: it draws exactly the
  characters other than newlines whose row is in the window, each at the row and column of its index
  (at the start of the next row when that column is past the margin), each with its continuation
  bytes, and no two on the same cell.
\<close>

theorem draw_matches_positions:
  assumes "tidy buf len"
  shows "draw_text buf len rows cols vtop = concat (map (\<lambda>i.
      let (r, c) = get_vpos buf len i cols;
          (r, c) = (if c \<ge> cols - 1 then (r + 1, 0) else (r, c)) in
      if \<not> u8_is_cont (buf ! i) \<and> buf ! i \<noteq> CHR 0x0A \<and> 1 \<le> r - vtop + 1 \<and> r - vtop + 1 < rows - 1
      then [(r - vtop + 1, c, take (u8_char_len buf len i) (drop i buf))] else []) [0..<len]) \<and>
    distinct (map (\<lambda>(wr, vc, s). (wr, vc)) (draw_text buf len rows cols vtop))"
proof
  show "draw_text buf len rows cols vtop = concat (map (\<lambda>i.
      let (r, c) = get_vpos buf len i cols;
          (r, c) = (if c \<ge> cols - 1 then (r + 1, 0) else (r, c)) in
      if \<not> u8_is_cont (buf ! i) \<and> buf ! i \<noteq> CHR 0x0A \<and> 1 \<le> r - vtop + 1 \<and> r - vtop + 1 < rows - 1
      then [(r - vtop + 1, c, take (u8_char_len buf len i) (drop i buf))] else []) [0..<len])"
    unfolding draw_text_cells[OF assms]
    by (intro arg_cong[where f = concat] map_cong refl)
       (auto simp: cell_at_def cell_pos_def shown_char_def get_vpos_pos min_absorb1 Let_def
         split: prod.splits)
  show "distinct (map (\<lambda>(wr, vc, s). (wr, vc)) (draw_text buf len rows cols vtop))"
    using sorted_cells_distinct[OF cells_sorted] unfolding draw_text_cells[OF assms]
    by (simp add: case_prod_unfold)
qed

theorem draw_matches_positions_witness:
  "draw_text demo_text 11 5 4 1 =
     [(1, 0, ''c''), (1, 1, ''d''), (1, 2, ''e''), (2, 0, ''f''), (3, 0, ''x''), (3, 1, ''y'')] \<and>
   distinct (map (\<lambda>(wr, vc, s). (wr, vc)) (draw_text demo_text 11 5 4 1))"
proof -
  have "draw_text demo_text 11 5 4 1 =
     [(1, 0, ''c''), (1, 1, ''d''), (1, 2, ''e''), (2, 0, ''f''), (3, 0, ''x''), (3, 1, ''y'')]"
    by code_simp
  then show ?thesis using draw_matches_positions[OF demo_text_tidy, of 5 4 1] by blast
qed

text \<open>
  C33. Nothing of the text is lost on the screen: when the rows \<open>total_vrows\<close> counts fit into the window
  and the view is at the top, the drawn characters in order are the text without its newlines.
\<close>

theorem draw_shows_text:
  assumes "tidy buf len" and "len \<le> length buf" and "total_vrows buf len cols \<le> rows - 2"
  shows "concat (map (\<lambda>(wr, vc, s). s) (draw_text buf len rows cols 0)) =
    filter (\<lambda>c. c \<noteq> CHR 0x0A) (take len buf)"
proof -
  have "1 \<le> fst (cell_pos buf cols i) - 0 + 1 \<and> fst (cell_pos buf cols i) - 0 + 1 < rows - 1"
    if "i < len" "shown_char buf i" for i
  proof -
    have "fst (cell_pos buf cols i) = fst (pos buf cols (Suc i))"
      using that(2)
      by (cases "pos buf cols i") (auto simp: shown_char_def cell_pos_def pos_Suc pos_step_def wrap_step_def)
    then show ?thesis
      using pos_row_mono[of "Suc i" len buf cols] pos_row_nonneg[of buf cols "Suc i"] that(1) assms(3)
      by (simp add: total_vrows_pos)
  qed
  moreover have "boundary buf len 0" using assms(1) by (auto simp: boundary_def tidy_def)
  ultimately have "concat (map (snd \<circ> snd) (concat (map (cell_at buf len rows cols 0) [0..<len]))) =
      filter (\<lambda>c. c \<noteq> CHR 0x0A) (drop 0 (take len buf))"
    by (rule cells_text[OF assms(1,2)])
  then show ?thesis
    unfolding draw_text_cells[OF assms(1)] by (simp add: case_prod_unfold comp_def)
qed

theorem draw_shows_text_witness:
  "concat (map (\<lambda>(wr, vc, s). s) (draw_text demo_text 11 6 4 0)) =
     ''ab'' @ [CHR 0xC3, CHR 0xA9] @ ''cdefxy''"
proof -
  have "total_vrows demo_text 11 4 = 4" by code_simp
  then have "concat (map (\<lambda>(wr, vc, s). s) (draw_text demo_text 11 6 4 0)) =
      filter (\<lambda>c. c \<noteq> CHR 0x0A) (take 11 demo_text)"
    by (intro draw_shows_text[OF demo_text_tidy]) (simp_all add: demo_text_def)
  then show ?thesis by (simp add: demo_text_def)
qed

end
