(* ===== verification/Storage.thy ===== *)
theory Storage
  imports CLib
begin

text \<open>
  server/storage.c: the only file that speaks SQL. SQLite itself is not part of the repository, so
  it is a parameter: a record of the calls the file makes (\<open>sqlite3_open\<close>, \<open>sqlite3_exec\<close>,
  \<open>sqlite3_busy_timeout\<close>, the sequence prepare / bind / step / finalize on one statement, and
  \<open>sqlite3_close\<close>) over an abstract database state \<open>'d\<close>. The SQL texts are the source's, byte
  for byte. The locale \<open>sqlite_engine\<close> states the documented meaning of exactly these
  statements over two tables; a reference engine, which can also be told to fail, shows that the
  locale can be met and evaluates the witnesses.
\<close>

subsection \<open>The SQLite interface\<close>

datatype sql_value = SqlText string | SqlInt int

datatype step_code = SQLITE_ROW | SQLITE_DONE | SQLITE_ERROR

text \<open>
  What one execution of a prepared statement yields on a connection: its rows, whether it ended
  with \<open>SQLITE_DONE\<close>, and what \<open>sqlite3_changes\<close> and \<open>sqlite3_last_insert_rowid\<close> report on
  that connection right after it.
\<close>

record sql_result =
  res_rows :: "sql_value list list"
  res_done :: bool
  res_changes :: int
  res_rowid :: int

record 'd sqlite =
  sq_open :: "string \<Rightarrow> 'd \<Rightarrow> bool \<times> 'd"
  sq_exec :: "string \<Rightarrow> 'd \<Rightarrow> bool \<times> 'd"
  sq_busy_timeout :: "int \<Rightarrow> 'd \<Rightarrow> 'd"
  sq_run :: "string \<Rightarrow> sql_value list \<Rightarrow> 'd \<Rightarrow> sql_result \<times> 'd"
  sq_close :: "'d \<Rightarrow> 'd"

text \<open>The code of the first \<open>sqlite3_step\<close>.\<close>

definition sqlite3_step :: "sql_result \<Rightarrow> step_code" where
  "sqlite3_step r = (if res_rows r \<noteq> [] then SQLITE_ROW
                     else if res_done r then SQLITE_DONE else SQLITE_ERROR)"

text \<open>Column access with SQLite's documented conversions.\<close>

fun column_int64 :: "sql_value \<Rightarrow> int" where
  "column_int64 (SqlInt n) = c_long n"
| "column_int64 (SqlText t) = atol t"

fun column_int :: "sql_value \<Rightarrow> int" where
  "column_int (SqlInt n) = c_int n"
| "column_int (SqlText t) = c_int (atol t)"

fun column_text :: "sql_value \<Rightarrow> string" where
  "column_text (SqlInt n) = show_int n"
| "column_text (SqlText t) = t"

subsection \<open>The statements\<close>

definition sql_wal :: string where
  "sql_wal = ''PRAGMA journal_mode=WAL;''"

definition sql_foreign_keys :: string where
  "sql_foreign_keys = ''PRAGMA foreign_keys=ON;''"

definition sql_schema :: string where
  "sql_schema =
     ''CREATE TABLE IF NOT EXISTS users ('' @
     ''  auth_pubkey    TEXT PRIMARY KEY NOT NULL,'' @
     ''  encrypt_pubkey TEXT NOT NULL'' @
     '');'' @
     ''CREATE TABLE IF NOT EXISTS entries ('' @
     ''  id           INTEGER PRIMARY KEY AUTOINCREMENT,'' @
     ''  auth_pubkey  TEXT    NOT NULL,'' @
     ''  timestamp    INTEGER NOT NULL,'' @
     ''  data         TEXT    NOT NULL'' @
     '');'' @
     ''CREATE INDEX IF NOT EXISTS idx_entries_auth'' @
     ''  ON entries(auth_pubkey);''"

definition sql_user_exists :: string where
  "sql_user_exists = ''SELECT 1 FROM users WHERE auth_pubkey=? LIMIT 1''"

definition sql_register :: string where
  "sql_register = ''INSERT OR IGNORE INTO users(auth_pubkey, encrypt_pubkey) VALUES(?,?)''"

definition sql_encrypt_pubkey :: string where
  "sql_encrypt_pubkey = ''SELECT encrypt_pubkey FROM users WHERE auth_pubkey=? LIMIT 1''"

definition sql_add :: string where
  "sql_add = ''INSERT INTO entries(auth_pubkey, timestamp, data) VALUES(?,?,?)''"

definition sql_select :: string where
  "sql_select = ''SELECT id, timestamp, data FROM entries'' @
                '' WHERE auth_pubkey=? ORDER BY id ASC''"

definition sql_update :: string where
  "sql_update = ''UPDATE entries SET data=? WHERE id=? AND auth_pubkey=?''"

definition sql_delete :: string where
  "sql_delete = ''DELETE FROM entries WHERE id=? AND auth_pubkey=?''"

lemmas sql_defs = sql_wal_def sql_foreign_keys_def sql_schema_def sql_user_exists_def
  sql_register_def sql_encrypt_pubkey_def sql_add_def sql_select_def sql_update_def sql_delete_def

subsection \<open>The operations of storage.c\<close>

text \<open>
  \<open>storage_init\<close> returns the C result, whether the module-level handle \<open>db\<close> is non-null
  afterwards (SQLite sets it even when opening fails), and the database.
\<close>

definition storage_init :: "'d sqlite \<Rightarrow> string \<Rightarrow> 'd \<Rightarrow> int \<times> bool \<times> 'd" where
  "storage_init sq path d0 =
     (let (ok, d1) = sq_open sq path d0 in
      if \<not> ok then (-1, True, d1)
      else
        let d2 = snd (sq_exec sq sql_wal d1);
            d3 = sq_busy_timeout sq 5000 d2;
            d4 = snd (sq_exec sq sql_foreign_keys d3);
            (ok', d5) = sq_exec sq sql_schema d4
        in (if \<not> ok' then (-1, True, d5) else (0, True, d5)))"

definition storage_close :: "'d sqlite \<Rightarrow> bool \<Rightarrow> 'd \<Rightarrow> bool \<times> 'd" where
  "storage_close sq db d = (if db then (False, sq_close sq d) else (db, d))"

definition storage_user_exists :: "'d sqlite \<Rightarrow> string \<Rightarrow> 'd \<Rightarrow> bool \<times> 'd" where
  "storage_user_exists sq auth_pubkey_hex d =
     (let (r, d') = sq_run sq sql_user_exists [SqlText auth_pubkey_hex] d
      in (sqlite3_step r = SQLITE_ROW, d'))"

definition storage_register_user :: "'d sqlite \<Rightarrow> string \<Rightarrow> string \<Rightarrow> 'd \<Rightarrow> int \<times> 'd" where
  "storage_register_user sq auth_pubkey_hex encrypt_pubkey_b64 d =
     (let (r, d') = sq_run sq sql_register [SqlText auth_pubkey_hex, SqlText encrypt_pubkey_b64] d
      in (if sqlite3_step r = SQLITE_DONE then 0 else -1, d'))"

definition storage_get_encrypt_pubkey :: "'d sqlite \<Rightarrow> string \<Rightarrow> 'd \<Rightarrow> string option \<times> 'd" where
  "storage_get_encrypt_pubkey sq auth_pubkey_hex d =
     (let (r, d') = sq_run sq sql_encrypt_pubkey [SqlText auth_pubkey_hex] d
      in (if sqlite3_step r = SQLITE_ROW then Some (column_text (hd (res_rows r) ! 0)) else None,
          d'))"

definition storage_add_entry :: "'d sqlite \<Rightarrow> string \<Rightarrow> string \<Rightarrow> int \<Rightarrow> 'd \<Rightarrow> int \<times> 'd" where
  "storage_add_entry sq auth_pubkey_hex encrypted_b64 timestamp d =
     (let (r, d') = sq_run sq sql_add
                      [SqlText auth_pubkey_hex, SqlInt (c_long timestamp), SqlText encrypted_b64] d
      in (if sqlite3_step r \<noteq> SQLITE_DONE then -1 else c_int (res_rowid r), d'))"

text \<open>The callback gets the user data last, as \<open>entry_cb_t\<close> does, and returns it updated.\<close>

definition storage_get_entries ::
    "'d sqlite \<Rightarrow> string \<Rightarrow> (int \<Rightarrow> int \<Rightarrow> string \<Rightarrow> 'u \<Rightarrow> 'u) \<Rightarrow> 'u \<Rightarrow> 'd \<Rightarrow> int \<times> 'u \<times> 'd" where
  "storage_get_entries sq auth_pubkey_hex cb userdata d =
     (let (r, d') = sq_run sq sql_select [SqlText auth_pubkey_hex] d
      in (0,
          fold (\<lambda>row. cb (column_int (row ! 0)) (column_int64 (row ! 1)) (column_text (row ! 2)))
            (res_rows r) userdata,
          d'))"

definition storage_update_entry :: "'d sqlite \<Rightarrow> string \<Rightarrow> int \<Rightarrow> string \<Rightarrow> 'd \<Rightarrow> int \<times> 'd" where
  "storage_update_entry sq auth_pubkey_hex id' encrypted_b64 d =
     (let (r, d') = sq_run sq sql_update
                      [SqlText encrypted_b64, SqlInt id', SqlText auth_pubkey_hex] d
      in (if sqlite3_step r = SQLITE_DONE \<and> res_changes r > 0 then 0 else -1, d'))"

definition storage_delete_entry :: "'d sqlite \<Rightarrow> string \<Rightarrow> int \<Rightarrow> 'd \<Rightarrow> int \<times> 'd" where
  "storage_delete_entry sq auth_pubkey_hex id' d =
     (let (r, d') = sq_run sq sql_delete [SqlInt id', SqlText auth_pubkey_hex] d
      in (if sqlite3_step r = SQLITE_DONE \<and> res_changes r > 0 then 0 else -1, d'))"

lemmas storage_op_defs [storage_defs] = storage_init_def storage_close_def storage_user_exists_def
  storage_register_user_def storage_get_encrypt_pubkey_def storage_add_entry_def
  storage_get_entries_def storage_update_entry_def storage_delete_entry_def

subsection \<open>The tables and the meaning of the statements\<close>

record entry_row =
  row_id :: int
  row_owner :: string
  row_ts :: int
  row_data :: string

text \<open>
  \<open>t_entries\<close> lists the rows in rowid order; \<open>t_seq\<close> is the largest rowid the table ever held
  (the \<open>sqlite_sequence\<close> entry that AUTOINCREMENT keeps).
\<close>

record tables =
  t_users :: "(string \<times> string) list"
  t_entries :: "entry_row list"
  t_seq :: int

definition no_tables :: tables where
  "no_tables = \<lparr>t_users = [], t_entries = [], t_seq = 0\<rparr>"

definition owned :: "string \<Rightarrow> tables \<Rightarrow> entry_row list" where
  "owned u t = filter (\<lambda>r. row_owner r = u) (t_entries t)"

definition registered :: "string \<Rightarrow> tables \<Rightarrow> bool" where
  "registered u t \<longleftrightarrow> u \<in> fst ` set (t_users t)"

definition hits :: "int \<Rightarrow> string \<Rightarrow> entry_row \<Rightarrow> bool" where
  "hits i u r \<longleftrightarrow> row_id r = i \<and> row_owner r = u"

definition tb_register :: "string \<Rightarrow> string \<Rightarrow> tables \<Rightarrow> tables" where
  "tb_register u k t = (if registered u t then t else t\<lparr>t_users := t_users t @ [(u, k)]\<rparr>)"

definition tb_add :: "int \<Rightarrow> string \<Rightarrow> int \<Rightarrow> string \<Rightarrow> tables \<Rightarrow> tables" where
  "tb_add i u ts x t =
     t\<lparr>t_entries := t_entries t @ [\<lparr>row_id = i, row_owner = u, row_ts = ts, row_data = x\<rparr>],
       t_seq := i\<rparr>"

definition tb_update :: "int \<Rightarrow> string \<Rightarrow> string \<Rightarrow> tables \<Rightarrow> tables" where
  "tb_update i u x t =
     t\<lparr>t_entries := map (\<lambda>r. if hits i u r then r\<lparr>row_data := x\<rparr> else r) (t_entries t)\<rparr>"

definition tb_delete :: "int \<Rightarrow> string \<Rightarrow> tables \<Rightarrow> tables" where
  "tb_delete i u t = t\<lparr>t_entries := filter (\<lambda>r. \<not> hits i u r) (t_entries t)\<rparr>"

definition row_values :: "entry_row \<Rightarrow> sql_value list" where
  "row_values r = [SqlInt (row_id r), SqlInt (row_ts r), SqlText (row_data r)]"

definition hit_count :: "int \<Rightarrow> string \<Rightarrow> tables \<Rightarrow> int" where
  "hit_count i u t = int (length (filter (hits i u) (t_entries t)))"

lemmas table_defs = owned_def registered_def tb_register_def tb_add_def tb_update_def tb_delete_def
  hit_count_def

text \<open>
  The documented behaviour of SQLite for the statements above. A statement that does not end with
  \<open>SQLITE_DONE\<close> (busy, full, I/O error) leaves the tables as they were; a SELECT that fails has
  returned a prefix of its rows. AUTOINCREMENT gives a rowid larger than every earlier one, within
  64 bits. Opening, the pragmas, \<open>CREATE ... IF NOT EXISTS\<close> and closing change no row.
\<close>

locale sqlite_engine =
  fixes sq :: "'d sqlite" and tables :: "'d \<Rightarrow> tables"
  assumes open_tables: "tables (snd (sq_open sq path d)) = tables d"
    and exec_tables: "sql \<in> {sql_wal, sql_foreign_keys, sql_schema} \<Longrightarrow>
      tables (snd (sq_exec sq sql d)) = tables d"
    and timeout_tables: "tables (sq_busy_timeout sq ms d) = tables d"
    and close_tables: "tables (sq_close sq d) = tables d"
    and user_exists_run: "sq_run sq sql_user_exists [SqlText u] d = (r, d') \<Longrightarrow>
      tables d' = tables d \<and>
      (if res_done r \<and> registered u (tables d) then res_rows r = [[SqlInt 1]]
       else res_rows r = [] \<or> (registered u (tables d) \<and> res_rows r = [[SqlInt 1]]))"
    and encrypt_pubkey_run: "sq_run sq sql_encrypt_pubkey [SqlText u] d = (r, d') \<Longrightarrow>
      tables d' = tables d \<and>
      (\<exists>n. res_rows r = take n (take 1 (map (\<lambda>(_, k). [SqlText k])
              (filter (\<lambda>(a, _). a = u) (t_users (tables d))))) \<and> (res_done r \<longrightarrow> 0 < n))"
    and register_run: "sq_run sq sql_register [SqlText u, SqlText k] d = (r, d') \<Longrightarrow>
      res_rows r = [] \<and> tables d' = (if res_done r then tb_register u k (tables d) else tables d)"
    and add_run: "sq_run sq sql_add [SqlText u, SqlInt ts, SqlText x] d = (r, d') \<Longrightarrow>
      res_rows r = [] \<and>
      (if res_done r then t_seq (tables d) < res_rowid r \<and> fits_long (res_rowid r) \<and>
                          tables d' = tb_add (res_rowid r) u ts x (tables d)
       else tables d' = tables d)"
    and select_run: "sq_run sq sql_select [SqlText u] d = (r, d') \<Longrightarrow>
      tables d' = tables d \<and>
      (\<exists>n. res_rows r = take n (map row_values (owned u (tables d)))) \<and>
      (res_done r \<longrightarrow> res_rows r = map row_values (owned u (tables d)))"
    and update_run: "sq_run sq sql_update [SqlText x, SqlInt i, SqlText u] d = (r, d') \<Longrightarrow>
      res_rows r = [] \<and>
      (if res_done r then res_changes r = hit_count i u (tables d) \<and>
                          tables d' = tb_update i u x (tables d)
       else tables d' = tables d)"
    and delete_run: "sq_run sq sql_delete [SqlInt i, SqlText u] d = (r, d') \<Longrightarrow>
      res_rows r = [] \<and>
      (if res_done r then res_changes r = hit_count i u (tables d) \<and>
                          tables d' = tb_delete i u (tables d)
       else tables d' = tables d)"

subsection \<open>Changes of the tables as labels\<close>

text \<open>
  What a statement did, as a label: the abstract specification of every writer of the database.
  \<open>op_allowed\<close> is the condition under which a label may occur (a new rowid is larger than every
  earlier one), \<open>apply_op\<close> its effect, \<open>op_user\<close> the identity on whose behalf it acts.
\<close>

datatype table_op =
    Keep
  | Register string string
  | Add int string int string
  | Update int string string
  | Delete int string

fun apply_op :: "table_op \<Rightarrow> tables \<Rightarrow> tables" where
  "apply_op Keep t = t"
| "apply_op (Register u k) t = tb_register u k t"
| "apply_op (Add i u ts x) t = tb_add i u ts x t"
| "apply_op (Update i u x) t = tb_update i u x t"
| "apply_op (Delete i u) t = tb_delete i u t"

fun op_allowed :: "table_op \<Rightarrow> tables \<Rightarrow> bool" where
  "op_allowed (Add i u ts x) t \<longleftrightarrow> t_seq t < i \<and> fits_long i \<and> fits_long ts"
| "op_allowed _ t \<longleftrightarrow> True"

fun op_user :: "table_op \<Rightarrow> string option" where
  "op_user Keep = None"
| "op_user (Register u k) = Some u"
| "op_user (Add i u ts x) = Some u"
| "op_user (Update i u x) = Some u"
| "op_user (Delete i u) = Some u"

text \<open>Whether a label rewrites or removes the row \<open>i\<close> of \<open>u\<close>.\<close>

fun op_touches :: "int \<Rightarrow> string \<Rightarrow> table_op \<Rightarrow> bool" where
  "op_touches i u (Update j v x) \<longleftrightarrow> j = i \<and> v = u"
| "op_touches i u (Delete j v) \<longleftrightarrow> j = i \<and> v = u"
| "op_touches i u _ \<longleftrightarrow> False"

text \<open>
  The invariant of the tables: one row per user, entry rows strictly ordered by a positive rowid
  that is at most the largest one ever given, timestamps of 64 bits.
\<close>

definition tables_inv :: "tables \<Rightarrow> bool" where
  "tables_inv t \<longleftrightarrow> distinct (map fst (t_users t)) \<and>
     sorted_wrt (\<lambda>a b. row_id a < row_id b) (t_entries t) \<and>
     (\<forall>r \<in> set (t_entries t). 0 < row_id r \<and> row_id r \<le> t_seq t \<and> fits_long (row_ts r)) \<and>
     0 \<le> t_seq t"

lemma tables_inv_no_tables [simp]: "tables_inv no_tables"
  by (simp add: tables_inv_def no_tables_def)

lemma registered_iff: "registered u t \<longleftrightarrow> u \<in> set (map fst (t_users t))"
  by (simp add: registered_def)

lemma sorted_wrt_map_same:
  "(\<And>r. f r = r \<or> row_id (f r) = row_id r) \<Longrightarrow>
   sorted_wrt (\<lambda>a b. row_id a < row_id b) (map f rs) = sorted_wrt (\<lambda>a b. row_id a < row_id b) rs"
  by (induction rs) (auto, (metis+))

lemma apply_op_inv: "op_allowed op t \<Longrightarrow> tables_inv t \<Longrightarrow> tables_inv (apply_op op t)"
proof (cases op)
  case (Register u k)
  then show "tables_inv t \<Longrightarrow> ?thesis"
    by (auto simp: tables_inv_def tb_register_def registered_iff)
next
  case (Add i u ts x)
  assume "op_allowed op t" "tables_inv t"
  with Add show ?thesis
    by (force simp: tables_inv_def tb_add_def sorted_wrt_append)
next
  case (Update i u x)
  have "sorted_wrt (\<lambda>a b. row_id a < row_id b)
          (map (\<lambda>r. if hits i u r then r\<lparr>row_data := x\<rparr> else r) (t_entries t)) =
        sorted_wrt (\<lambda>a b. row_id a < row_id b) (t_entries t)"
    by (rule sorted_wrt_map_same) simp
  with Update show "tables_inv t \<Longrightarrow> ?thesis"
    by (auto simp: tables_inv_def tb_update_def)
next
  case (Delete i u)
  then show "tables_inv t \<Longrightarrow> ?thesis"
    by (auto simp: tables_inv_def tb_delete_def intro: sorted_wrt_filter)
qed simp

lemma apply_op_seq: "op_allowed op t \<Longrightarrow> t_seq t \<le> t_seq (apply_op op t)"
  by (cases op) (auto simp: table_defs)

text \<open>Ownership: a label of another user leaves a user's rows as they are.\<close>

lemma apply_op_owned:
  assumes "op_user op \<noteq> Some u"
  shows "owned u (apply_op op t) = owned u t"
proof (cases op)
  case (Update i v x)
  then show ?thesis
    using assms by (auto simp: owned_def tb_update_def hits_def intro!: filter_map_keep)
next
  case (Delete i v)
  then show ?thesis
    using assms by (auto simp: owned_def tb_delete_def hits_def intro!: filter_cong)
qed (use assms in \<open>auto simp: owned_def tb_register_def tb_add_def\<close>)

text \<open>Durability: a row stays, unchanged, under every label that does not touch it.\<close>

lemma apply_op_keeps_row:
  assumes "r \<in> set (t_entries t)" and "\<not> op_touches (row_id r) (row_owner r) op"
  shows "r \<in> set (t_entries (apply_op op t))"
  using assms by (cases op) (auto simp: table_defs hits_def image_iff intro: bexI[of _ r])

text \<open>A new row has an identity no row had before.\<close>

lemma add_fresh:
  "op_allowed (Add i u ts x) t \<Longrightarrow> tables_inv t \<Longrightarrow> i \<notin> row_id ` set (t_entries t)"
  by (auto simp: tables_inv_def)

text \<open>
  Ids are not reused, and owner and timestamp never change: a row whose id was already given is a
  row that was there before, up to its data.
\<close>

lemma apply_op_row_origin:
  assumes "op_allowed op t" and "r \<in> set (t_entries (apply_op op t))" and "row_id r \<le> t_seq t"
  shows "\<exists>r0 \<in> set (t_entries t). row_id r0 = row_id r \<and> row_owner r0 = row_owner r \<and>
           row_ts r0 = row_ts r"
  using assms by (cases op) (auto simp: table_defs split: if_splits)

end
