(* ===== verification/Handler.thy ===== *)
theory Handler
  imports Storage
begin

text \<open>
  server/client_handler.c: the handler \<open>proto_serve\<close> calls for one authenticated client, and its
  GET accumulator. The socket is modelled by what crosses it: the lines the handler receives, in
  order, and the lines it passes to \<open>proto_send_line\<close>. Each received line comes with what the
  handler asks the system while it serves it: the clock, and whether the allocations succeed.
  The protocol library and libsodium are parameters (\<open>server_lib\<close>).
  \<open>diary_handle\<close> follows the C function; \<open>session_open\<close>, \<open>session_line\<close> and
  \<open>session_eof\<close> are the same code cut at its reads, for the runs with several clients.
\<close>

subsection \<open>Parameters and requests\<close>

text \<open>
  \<open>lib_recv_line n l\<close> is what \<open>proto_recv_line\<close> with a buffer of \<open>n\<close> bytes makes of the incoming
  line \<open>l\<close> (\<open>None\<close> for a negative result); \<open>lib_base642bin n s\<close> is \<open>sodium_base642bin\<close> into \<open>n\<close>
  bytes, original variant, no ignored characters (\<open>None\<close> for a nonzero result).
\<close>

record server_lib =
  lib_max_line :: nat
  lib_recv_line :: "nat \<Rightarrow> string \<Rightarrow> string option"
  lib_enc_pk_len :: nat
  lib_base642bin :: "nat \<Rightarrow> string \<Rightarrow> bytes option"

text \<open>
  One line with the answers of the system: \<open>time (NULL)\<close>, whether the \<open>calloc\<close> of GET succeeds,
  and whether the \<open>malloc\<close> for the row with a given id succeeds.
\<close>

record request =
  rq_line :: string
  rq_now :: int
  rq_calloc :: bool
  rq_malloc :: "int \<Rightarrow> bool"

subsection \<open>GET: entry accumulator\<close>

definition MAX_ENTRIES :: nat where
  "MAX_ENTRIES = 1024"

record entry_collect =
  ec_count :: nat
  ec_lines :: "string option list"

definition collect_entry ::
    "(int \<Rightarrow> bool) \<Rightarrow> int \<Rightarrow> int \<Rightarrow> string \<Rightarrow> entry_collect \<Rightarrow> entry_collect" where
  "collect_entry malloc_ok id' ts data c =
     (if ec_count c \<ge> MAX_ENTRIES then c
      else
        let len = 10 + 1 + 20 + 1 + length data + 1 in
        if \<not> malloc_ok id' then c
        else
          let line = snprintf len (show_int id' @ '' '' @ show_int ts @ '' '' @ data)
          in c\<lparr>ec_lines := (ec_lines c)[ec_count c := Some line], ec_count := ec_count c + 1\<rparr>)"

subsection \<open>Commands\<close>

text \<open>The timestamp and the data of a POST payload, given the server's clock.\<close>

definition post_fields :: "int \<Rightarrow> string \<Rightarrow> int \<times> string" where
  "post_fields now payload =
     (case strchr payload (CHR '' '') of
        Some sp \<Rightarrow>
          let client_ts = atol payload
          in if client_ts > 0 then (client_ts, drop (sp + 1) payload) else (now, payload)
      | None \<Rightarrow> (now, payload))"

definition handle_post :: "'d sqlite \<Rightarrow> string \<Rightarrow> request \<Rightarrow> 'd \<Rightarrow> string list \<times> 'd" where
  "handle_post sq user_hex rq d =
     (let (ts, payload) = post_fields (rq_now rq) (drop 5 (rq_line rq));
          (id', d') = storage_add_entry sq user_hex payload ts d
      in (if id' < 0 then [''FAIL could not save entry'']
          else [snprintf 32 (''OK '' @ show_int id')], d'))"

definition handle_get :: "'d sqlite \<Rightarrow> string \<Rightarrow> request \<Rightarrow> 'd \<Rightarrow> string list \<times> 'd" where
  "handle_get sq user_hex rq d =
     (if \<not> rq_calloc rq then ([''FAIL out of memory''], d)
      else
        let col0 = \<lparr>ec_count = 0, ec_lines = replicate MAX_ENTRIES None\<rparr>;
            (rc, col, d') = storage_get_entries sq user_hex (collect_entry (rq_malloc rq)) col0 d;
            hdr = snprintf 32 (''ENTRIES '' @ show_int (int (ec_count col)))
        in (hdr # map the (take (ec_count col) (ec_lines col)), d'))"

definition handle_update :: "'d sqlite \<Rightarrow> string \<Rightarrow> request \<Rightarrow> 'd \<Rightarrow> string list \<times> 'd" where
  "handle_update sq user_hex rq d =
     (let rest = drop 7 (rq_line rq) in
      case strchr rest (CHR '' '') of
        None \<Rightarrow> ([''FAIL invalid UPDATE format''], d)
      | Some sp \<Rightarrow>
          let uid = atoi (take sp rest);
              (rc, d') = storage_update_entry sq user_hex uid (drop (sp + 1) rest) d
          in (if rc = 0 then [''OK''] else [''FAIL entry not found''], d'))"

definition handle_delete :: "'d sqlite \<Rightarrow> string \<Rightarrow> request \<Rightarrow> 'd \<Rightarrow> string list \<times> 'd" where
  "handle_delete sq user_hex rq d =
     (let del_id = atoi (drop 7 (rq_line rq));
          (rc, d') = storage_delete_entry sq user_hex del_id d
      in (if rc = 0 then [''OK''] else [''FAIL entry not found''], d'))"

text \<open>The command loop's dispatch, after the test for QUIT, in the order of the source.\<close>

definition handle_command :: "'d sqlite \<Rightarrow> string \<Rightarrow> request \<Rightarrow> 'd \<Rightarrow> string list \<times> 'd" where
  "handle_command sq user_hex rq d =
     (if starts_with ''POST '' (rq_line rq) then handle_post sq user_hex rq d
      else if rq_line rq = ''GET'' then handle_get sq user_hex rq d
      else if starts_with ''UPDATE '' (rq_line rq) then handle_update sq user_hex rq d
      else if starts_with ''DELETE '' (rq_line rq) then handle_delete sq user_hex rq d
      else ([''FAIL unknown command''], d))"

lemmas handler_command_defs [handler_defs] = handle_command_def handle_post_def handle_get_def
  handle_update_def handle_delete_def

subsection \<open>Registration\<close>

text \<open>
  What the handler does with the line that answers \<open>REGISTER\<close>: its replies, whether it goes on to
  the command loop, and the database.
\<close>

definition valid_enc_key :: "server_lib \<Rightarrow> string \<Rightarrow> bool" where
  "valid_enc_key lib epk_b64 =
     (case lib_base642bin lib (lib_enc_pk_len lib) epk_b64 of
        None \<Rightarrow> False
      | Some epk \<Rightarrow> length epk = lib_enc_pk_len lib)"

definition handle_register ::
    "server_lib \<Rightarrow> 'd sqlite \<Rightarrow> string \<Rightarrow> string \<Rightarrow> 'd \<Rightarrow> string list \<times> bool \<times> 'd" where
  "handle_register lib sq user_hex incoming d =
     (case lib_recv_line lib (lib_max_line lib) incoming of
        None \<Rightarrow> ([], False, d)
      | Some line \<Rightarrow>
          if \<not> starts_with ''REGISTER '' line
          then ([''FAIL expected REGISTER <enc_pubkey_b64>''], False, d)
          else
            let epk_b64 = drop 9 line in
            if \<not> valid_enc_key lib epk_b64 then ([''FAIL invalid encryption key''], False, d)
            else
              let (rc, d') = storage_register_user sq user_hex epk_b64 d
              in if rc \<noteq> 0 then ([''FAIL could not register user''], False, d')
                 else ([''OK''], True, d'))"

subsection \<open>The whole handler\<close>

text \<open>
  \<open>proto_recv_line_dyn\<close> returns the next line, or null at the end of the input. The result is the
  list of lines sent, whether the database handle is still open, and the database.
\<close>

fun serve_loop :: "'d sqlite \<Rightarrow> string \<Rightarrow> request list \<Rightarrow> 'd \<Rightarrow> string list \<times> 'd" where
  "serve_loop sq user_hex [] d = ([], d)"
| "serve_loop sq user_hex (rq # rqs) d =
     (if rq_line rq = ''QUIT'' then ([''BYE''], d)
      else
        let (out, d') = handle_command sq user_hex rq d;
            (outs, d'') = serve_loop sq user_hex rqs d'
        in (out @ outs, d''))"

definition diary_handle ::
    "server_lib \<Rightarrow> 'd sqlite \<Rightarrow> string \<Rightarrow> string \<Rightarrow> request list \<Rightarrow> 'd \<Rightarrow> string list \<times> bool \<times> 'd" where
  "diary_handle lib sq db_path user_hex input d0 =
     (let (rc, db, d1) = storage_init sq db_path d0 in
      if rc \<noteq> 0 then ([''FAIL db''], db, d1)
      else
        let (known, d2) = storage_user_exists sq user_hex d1 in
        if \<not> known then
          (case input of
             [] \<Rightarrow> let (db', d3) = storage_close sq db d2 in ([''REGISTER''], db', d3)
           | rq # rqs \<Rightarrow>
               let (out, registered, d3) = handle_register lib sq user_hex (rq_line rq) d2 in
               if \<not> registered
               then let (db', d4) = storage_close sq db d3 in (''REGISTER'' # out, db', d4)
               else
                 let (outs, d4) = serve_loop sq user_hex rqs d3;
                     (db', d5) = storage_close sq db d4
                 in (''REGISTER'' # out @ outs, db', d5))
        else
          let (outs, d3) = serve_loop sq user_hex input d2;
              (db', d4) = storage_close sq db d3
          in (''OK'' # outs, db', d4))"

subsection \<open>The handler cut at its reads\<close>

datatype phase = Registering | Serving | Finished

record session =
  se_user :: string
  se_phase :: phase
  se_db :: bool

definition session_open ::
    "'d sqlite \<Rightarrow> string \<Rightarrow> string \<Rightarrow> 'd \<Rightarrow> string list \<times> session \<times> 'd" where
  "session_open sq db_path user_hex d0 =
     (let (rc, db, d1) = storage_init sq db_path d0 in
      if rc \<noteq> 0
      then ([''FAIL db''], \<lparr>se_user = user_hex, se_phase = Finished, se_db = db\<rparr>, d1)
      else
        let (known, d2) = storage_user_exists sq user_hex d1 in
        if \<not> known
        then ([''REGISTER''], \<lparr>se_user = user_hex, se_phase = Registering, se_db = db\<rparr>, d2)
        else ([''OK''], \<lparr>se_user = user_hex, se_phase = Serving, se_db = db\<rparr>, d2))"

definition session_finish :: "'d sqlite \<Rightarrow> session \<Rightarrow> 'd \<Rightarrow> session \<times> 'd" where
  "session_finish sq s d =
     (let (db', d') = storage_close sq (se_db s) d
      in (s\<lparr>se_phase := Finished, se_db := db'\<rparr>, d'))"

definition session_line ::
    "server_lib \<Rightarrow> 'd sqlite \<Rightarrow> session \<Rightarrow> request \<Rightarrow> 'd \<Rightarrow> string list \<times> session \<times> 'd" where
  "session_line lib sq s rq d =
     (case se_phase s of
        Finished \<Rightarrow> ([], s, d)
      | Registering \<Rightarrow>
          let (out, registered, d') = handle_register lib sq (se_user s) (rq_line rq) d in
          if registered then (out, s\<lparr>se_phase := Serving\<rparr>, d')
          else let (s', d'') = session_finish sq s d' in (out, s', d'')
      | Serving \<Rightarrow>
          if rq_line rq = ''QUIT''
          then let (s', d') = session_finish sq s d in ([''BYE''], s', d')
          else let (out, d') = handle_command sq (se_user s) rq d in (out, s, d'))"

definition session_eof :: "'d sqlite \<Rightarrow> session \<Rightarrow> 'd \<Rightarrow> session \<times> 'd" where
  "session_eof sq s d = (if se_phase s = Finished then (s, d) else session_finish sq s d)"

text \<open>A whole connection: open, every line, end of input.\<close>

fun session_lines ::
    "server_lib \<Rightarrow> 'd sqlite \<Rightarrow> session \<Rightarrow> request list \<Rightarrow> 'd \<Rightarrow> string list \<times> session \<times> 'd" where
  "session_lines lib sq s [] d = (let (s', d') = session_eof sq s d in ([], s', d'))"
| "session_lines lib sq s (rq # rqs) d =
     (let (out, s', d') = session_line lib sq s rq d;
          (outs, s'', d'') = session_lines lib sq s' rqs d'
      in (out @ outs, s'', d''))"

definition session_run ::
    "server_lib \<Rightarrow> 'd sqlite \<Rightarrow> string \<Rightarrow> string \<Rightarrow> request list \<Rightarrow> 'd \<Rightarrow> string list \<times> session \<times> 'd" where
  "session_run lib sq db_path user_hex input d =
     (let (out, s, d') = session_open sq db_path user_hex d;
          (outs, s', d'') = session_lines lib sq s input d'
      in (out @ outs, s', d''))"

lemmas session_defs [handler_defs] = session_open_def session_finish_def session_line_def
  session_eof_def session_run_def handle_register_def

end
