(* ===== verification/StorageProps.thy ===== *)
theory StorageProps
  imports Storage
begin

text \<open>
  What each operation of storage.c does to the tables, for every engine that behaves as SQLite
  documents: the lemmas of the locale \<open>sqlite_engine\<close>. Each writer is described by the label it
  applies (\<open>apply_op\<close>), so the invariants of Storage.thy carry over. \<open>sqlite_available\<close> adds that
  no statement fails. The reference engine \<open>ref_sqlite\<close> meets both contracts; its flaky variant
  consults a list of planned failures. The locale \<open>table_machine\<close> is the interface towards
  everything that runs over the storage: a step function whose every step is one allowed label.
\<close>

subsection \<open>Operations as labels\<close>

context sqlite_engine
begin

lemma init_keeps: "storage_init sq p d = (rc, h, d') \<Longrightarrow> tables d' = tables d \<and> h \<and> (rc = 0 \<or> rc = -1)"
  unfolding storage_init_def
  by (auto simp: Let_def split: prod.splits if_splits)
     (metis snd_conv open_tables exec_tables timeout_tables insertI1 insertI2)+

lemma close_keeps: "storage_close sq h d = (h', d') \<Longrightarrow> tables d' = tables d \<and> \<not> h'"
  by (auto simp: storage_close_def close_tables split: if_splits)

lemma user_exists_keeps: "storage_user_exists sq u d = (b, d') \<Longrightarrow> tables d' = tables d"
  by (auto simp: storage_user_exists_def dest: user_exists_run split: prod.splits)

lemma user_exists_sound:
  "storage_user_exists sq u d = (True, d') \<Longrightarrow> registered u (tables d)"
  by (auto simp: storage_user_exists_def sqlite3_step_def dest!: user_exists_run
      split: prod.splits if_splits)

lemma register_cases:
  "storage_register_user sq u k d = (rc, d') \<Longrightarrow>
     (rc = 0 \<and> tables d' = apply_op (Register u k) (tables d)) \<or>
     (rc = -1 \<and> tables d' = tables d)"
  by (auto simp: storage_register_user_def sqlite3_step_def dest!: register_run
      split: prod.splits if_splits)

lemma add_cases:
  "storage_add_entry sq u x ts d = (i, d') \<Longrightarrow>
     (\<exists>rowid. op_allowed (Add rowid u (c_long ts) x) (tables d) \<and> i = c_int rowid \<and>
              tables d' = apply_op (Add rowid u (c_long ts) x) (tables d)) \<or>
     (i = -1 \<and> tables d' = tables d)"
  by (auto simp: storage_add_entry_def sqlite3_step_def dest!: add_run
      split: prod.splits if_splits)

lemma get_cases:
  "storage_get_entries sq u cb ud d = (rc, ud', d') \<Longrightarrow>
     tables d' = tables d \<and> rc = 0 \<and>
     (\<exists>n. ud' = fold (\<lambda>r. cb (c_int (row_id r)) (c_long (row_ts r)) (row_data r))
                  (take n (owned u (tables d))) ud)"
  by (auto simp: storage_get_entries_def row_values_def fold_map comp_def take_map
      dest!: select_run split: prod.splits)

lemma hit_count_zero: "hit_count i u t = 0 \<longleftrightarrow> (\<forall>r \<in> set (t_entries t). \<not> hits i u r)"
  by (auto simp: hit_count_def filter_empty_conv)

lemma no_hit_update: "hit_count i u t = 0 \<Longrightarrow> tb_update i u x t = t"
  by (cases t) (auto simp: hit_count_zero tb_update_def intro!: map_idI)

lemma no_hit_delete: "hit_count i u t = 0 \<Longrightarrow> tb_delete i u t = t"
  by (cases t) (auto simp: hit_count_zero tb_delete_def intro!: filter_True)

lemma hit_count_pos: "0 < hit_count i u t \<longleftrightarrow> (\<exists>r \<in> set (t_entries t). hits i u r)"
  using hit_count_zero[of i u t] by (auto simp: hit_count_def)

lemma update_cases:
  "storage_update_entry sq u i x d = (rc, d') \<Longrightarrow>
     (rc = 0 \<and> (\<exists>r \<in> set (t_entries (tables d)). hits i u r) \<and>
      tables d' = apply_op (Update i u x) (tables d)) \<or>
     (rc = -1 \<and> tables d' = tables d)"
  using no_hit_update[of i u "tables d" x] hit_count_pos[of i u "tables d"]
  by (force simp: storage_update_entry_def sqlite3_step_def hit_count_def dest!: update_run
      split: prod.splits if_splits)

lemma delete_cases:
  "storage_delete_entry sq u i d = (rc, d') \<Longrightarrow>
     (rc = 0 \<and> (\<exists>r \<in> set (t_entries (tables d)). hits i u r) \<and>
      tables d' = apply_op (Delete i u) (tables d)) \<or>
     (rc = -1 \<and> tables d' = tables d)"
  using no_hit_delete[of i u "tables d"] hit_count_pos[of i u "tables d"]
  by (force simp: storage_delete_entry_def sqlite3_step_def hit_count_def dest!: delete_run
      split: prod.splits if_splits)

lemma encrypt_pubkey_sound:
  "storage_get_encrypt_pubkey sq u d = (Some k, d') \<Longrightarrow>
     tables d' = tables d \<and> (u, k) \<in> set (t_users (tables d))"
proof -
  assume "storage_get_encrypt_pubkey sq u d = (Some k, d')"
  then obtain r where r: "sq_run sq sql_encrypt_pubkey [SqlText u] d = (r, d')"
    "res_rows r \<noteq> []" "k = column_text (hd (res_rows r) ! 0)"
    by (auto simp: storage_get_encrypt_pubkey_def sqlite3_step_def split: prod.splits if_splits)
  obtain n where n: "res_rows r = take n (take 1 (map (\<lambda>(_, k). [SqlText k])
      (filter (\<lambda>(a, _). a = u) (t_users (tables d)))))" and t: "tables d' = tables d"
    using encrypt_pubkey_run[OF r(1)] by blast
  define l where "l = filter (\<lambda>(a, _). a = u) (t_users (tables d))"
  have "l \<noteq> []" using n r(2) by (auto simp: l_def)
  then obtain a q where l: "l = (a, q) # tl l" by (cases l) auto
  have "res_rows r = take n (take 1 (map (\<lambda>(_, k). [SqlText k]) ((a, q) # tl l)))"
    using n l by (simp add: l_def)
  then have "hd (res_rows r) = [SqlText q]"
    using r(2) by (cases n) auto
  moreover have "(a, q) \<in> set l" using l by (metis list.set_intros(1))
  ultimately show ?thesis using r(3) t by (auto simp: l_def)
qed

end

subsection \<open>An engine on which no statement fails\<close>

locale sqlite_available = sqlite_engine +
  assumes opens: "fst (sq_open sq path d)"
    and execs: "sql \<in> {sql_wal, sql_foreign_keys, sql_schema} \<Longrightarrow> fst (sq_exec sq sql d)"
    and runs: "sql \<in> {sql_user_exists, sql_register, sql_select, sql_update, sql_delete} \<Longrightarrow>
      res_done (fst (sq_run sq sql args d))"
    and adds: "0 \<le> t_seq (tables d) \<Longrightarrow> t_seq (tables d) < 2 ^ 63 - 1 \<Longrightarrow>
      res_done (fst (sq_run sq sql_add [SqlText u, SqlInt ts, SqlText x] d)) \<and>
      res_rowid (fst (sq_run sq sql_add [SqlText u, SqlInt ts, SqlText x] d)) = t_seq (tables d) + 1"
begin

lemma init_ok: "fst (storage_init sq p d) = 0"
  using opens execs by (auto simp: storage_init_def Let_def split: prod.splits) (metis fst_conv)+

lemma user_exists_iff: "fst (storage_user_exists sq u d) \<longleftrightarrow> registered u (tables d)"
proof -
  obtain r d' where r: "sq_run sq sql_user_exists [SqlText u] d = (r, d')" by force
  have "res_done r" using runs[of sql_user_exists "[SqlText u]" d] r by simp
  then show ?thesis
    using user_exists_run[OF r] r
    by (auto simp: storage_user_exists_def sqlite3_step_def split: if_splits)
qed

lemma register_ok:
  "storage_register_user sq u k d = (rc, d') \<Longrightarrow>
     rc = 0 \<and> tables d' = apply_op (Register u k) (tables d)"
  using runs[of sql_register "[SqlText u, SqlText k]" d]
  by (auto simp: storage_register_user_def sqlite3_step_def dest!: register_run
      split: prod.splits if_splits)

lemma add_ok:
  assumes "t_seq (tables d) < 2 ^ 31 - 1" and "0 \<le> t_seq (tables d)"
    and "storage_add_entry sq u x ts d = (i, d')"
  shows "i = t_seq (tables d) + 1 \<and> tables d' = apply_op (Add i u (c_long ts) x) (tables d)"
proof -
  have "fits_int (t_seq (tables d) + 1)" using assms by (simp add: fits_int_def)
  with assms adds[of d u "c_long ts" x] show ?thesis
    by (auto simp: storage_add_entry_def sqlite3_step_def dest!: add_run
        split: prod.splits if_splits)
qed

lemma get_ok:
  "storage_get_entries sq u cb ud d = (rc, ud', d') \<Longrightarrow>
     ud' = fold (\<lambda>r. cb (c_int (row_id r)) (c_long (row_ts r)) (row_data r))
             (owned u (tables d)) ud"
  using runs[of sql_select "[SqlText u]" d]
  by (auto simp: storage_get_entries_def row_values_def fold_map comp_def
      dest!: select_run split: prod.splits)

lemma update_ok:
  "storage_update_entry sq u i x d = (rc, d') \<Longrightarrow>
     (rc = 0 \<longleftrightarrow> (\<exists>r \<in> set (t_entries (tables d)). hits i u r)) \<and>
     tables d' = apply_op (Update i u x) (tables d)"
  using runs[of sql_update "[SqlText x, SqlInt i, SqlText u]" d] hit_count_pos[of i u "tables d"]
  by (auto simp: storage_update_entry_def sqlite3_step_def dest!: update_run
      split: prod.splits if_splits)

lemma delete_ok:
  "storage_delete_entry sq u i d = (rc, d') \<Longrightarrow>
     (rc = 0 \<longleftrightarrow> (\<exists>r \<in> set (t_entries (tables d)). hits i u r)) \<and>
     tables d' = apply_op (Delete i u) (tables d)"
  using runs[of sql_delete "[SqlInt i, SqlText u]" d] hit_count_pos[of i u "tables d"]
  by (auto simp: storage_delete_entry_def sqlite3_step_def dest!: delete_run
      split: prod.splits if_splits)

end

subsection \<open>The reference engine\<close>

record ref_db =
  rd_tables :: tables
  rd_fail :: "bool list"

definition failed_result :: sql_result where
  "failed_result = \<lparr>res_rows = [], res_done = False, res_changes = 0, res_rowid = 0\<rparr>"

definition done_result :: "sql_value list list \<Rightarrow> int \<Rightarrow> int \<Rightarrow> sql_result" where
  "done_result rows n i = \<lparr>res_rows = rows, res_done = True, res_changes = n, res_rowid = i\<rparr>"

text \<open>The statements that take one text, two texts and so on, as SQLite runs them.\<close>

definition ref_exec :: "string \<Rightarrow> sql_value list \<Rightarrow> tables \<Rightarrow> sql_result \<times> tables" where
  "ref_exec sql args t = (case args of
      [SqlText u] \<Rightarrow>
        if sql = sql_user_exists
        then (done_result (if registered u t then [[SqlInt 1]] else []) 0 0, t)
        else if sql = sql_encrypt_pubkey
        then (done_result (take 1 (map (\<lambda>(_, k). [SqlText k])
                (filter (\<lambda>(a, _). a = u) (t_users t)))) 0 0, t)
        else if sql = sql_select then (done_result (map row_values (owned u t)) 0 0, t)
        else (done_result [] 0 0, t)
    | [SqlText u, SqlText k] \<Rightarrow>
        if sql = sql_register then (done_result [] 0 0, tb_register u k t)
        else (done_result [] 0 0, t)
    | [SqlText u, SqlInt ts, SqlText x] \<Rightarrow>
        if sql = sql_add
        then (if t_seq t + 1 < 2 ^ 63 \<and> -(2 ^ 63) \<le> t_seq t + 1
              then (done_result [] 1 (t_seq t + 1), tb_add (t_seq t + 1) u ts x t)
              else (failed_result, t))
        else if sql = sql_update
        then (done_result [] (hit_count ts x t) 0, tb_update ts x u t)
        else (done_result [] 0 0, t)
    | [SqlInt i, SqlText u] \<Rightarrow>
        if sql = sql_delete then (done_result [] (hit_count i u t) 0, tb_delete i u t)
        else (done_result [] 0 0, t)
    | _ \<Rightarrow> (done_result [] 0 0, t))"

definition ref_run :: "bool \<Rightarrow> string \<Rightarrow> sql_value list \<Rightarrow> ref_db \<Rightarrow> sql_result \<times> ref_db" where
  "ref_run flaky sql args d =
     (if flaky \<and> take 1 (rd_fail d) = [True]
      then (failed_result, d\<lparr>rd_fail := drop 1 (rd_fail d)\<rparr>)
      else let (r, t) = ref_exec sql args (rd_tables d)
           in (r, d\<lparr>rd_tables := t, rd_fail := drop 1 (rd_fail d)\<rparr>))"

definition ref_sqlite :: "bool \<Rightarrow> ref_db sqlite" where
  "ref_sqlite flaky =
     \<lparr>sq_open = (\<lambda>path d. (\<not> flaky \<or> path \<noteq> [], d)), sq_exec = (\<lambda>sql d. (True, d)),
      sq_busy_timeout = (\<lambda>ms d. d), sq_run = ref_run flaky, sq_close = (\<lambda>d. d)\<rparr>"

lemma ref_sqlite_simps [simp]:
  "sq_open (ref_sqlite flaky) path d = (\<not> flaky \<or> path \<noteq> [], d)"
  "sq_exec (ref_sqlite flaky) sql d = (True, d)"
  "sq_busy_timeout (ref_sqlite flaky) ms d = d"
  "sq_close (ref_sqlite flaky) d = d"
  "sq_run (ref_sqlite flaky) = ref_run flaky"
  by (simp_all add: ref_sqlite_def)

lemma sql_distinct [simp]:
  "sql_encrypt_pubkey \<noteq> sql_user_exists" "sql_select \<noteq> sql_user_exists"
  "sql_select \<noteq> sql_encrypt_pubkey" "sql_update \<noteq> sql_add"
  "sql_user_exists \<noteq> sql_encrypt_pubkey" "sql_user_exists \<noteq> sql_select"
  "sql_encrypt_pubkey \<noteq> sql_select" "sql_add \<noteq> sql_update"
  by (simp_all add: sql_defs)

interpretation ref: sqlite_engine "ref_sqlite flaky" rd_tables
proof unfold_locales
  fix u :: string and d d' :: ref_db and r
  assume "sq_run (ref_sqlite flaky) sql_encrypt_pubkey [SqlText u] d = (r, d')"
  then show "rd_tables d' = rd_tables d \<and>
      (\<exists>n. res_rows r = take n (take 1 (map (\<lambda>(_, k). [SqlText k])
              (filter (\<lambda>(a, _). a = u) (t_users (rd_tables d))))) \<and> (res_done r \<longrightarrow> 0 < n))"
    by (auto simp: ref_run_def ref_exec_def failed_result_def done_result_def split: if_splits
        intro: exI[of _ 0] exI[of _ 1])
next
  fix u :: string and d d' :: ref_db and r
  assume "sq_run (ref_sqlite flaky) sql_select [SqlText u] d = (r, d')"
  then show "rd_tables d' = rd_tables d \<and>
      (\<exists>n. res_rows r = take n (map row_values (owned u (rd_tables d)))) \<and>
      (res_done r \<longrightarrow> res_rows r = map row_values (owned u (rd_tables d)))"
    by (auto simp: ref_run_def ref_exec_def failed_result_def done_result_def split: if_splits
        intro: exI[of _ 0] exI[of _ "length (owned u (rd_tables d))"])
qed (auto simp: ref_run_def ref_exec_def failed_result_def done_result_def fits_long_def
      split: if_splits)

interpretation calm: sqlite_available "ref_sqlite False" rd_tables
proof unfold_locales
  fix sql args and d :: ref_db
  show "res_done (fst (sq_run (ref_sqlite False) sql args d))"
    if "sql \<in> {sql_user_exists, sql_register, sql_select, sql_update, sql_delete}"
    using that by (auto simp: ref_run_def ref_exec_def done_result_def sql_defs
        split: prod.splits list.splits sql_value.splits if_splits)
next
  fix d :: ref_db and u ts x
  show "0 \<le> t_seq (rd_tables d) \<Longrightarrow> t_seq (rd_tables d) < 2 ^ 63 - 1 \<Longrightarrow>
      res_done (fst (sq_run (ref_sqlite False) sql_add [SqlText u, SqlInt ts, SqlText x] d)) \<and>
      res_rowid (fst (sq_run (ref_sqlite False) sql_add [SqlText u, SqlInt ts, SqlText x] d)) =
      t_seq (rd_tables d) + 1"
    by (auto simp: ref_run_def ref_exec_def done_result_def)
qed auto

subsection \<open>Programs over the storage\<close>

text \<open>
  The interface of whatever runs over the tables: every event moves the state by one allowed
  label, and \<open>may\<close> bounds the labels an event can cause. All that the server promises about the
  table contents over a whole run follows from this alone.
\<close>

locale table_machine =
  fixes step :: "'e \<Rightarrow> 's \<Rightarrow> 's" and contents :: "'s \<Rightarrow> tables" and ok :: "'s \<Rightarrow> bool"
    and may :: "'e \<Rightarrow> table_op \<Rightarrow> bool"
  assumes step_ok: "ok s \<Longrightarrow> ok (step e s)"
    and step_label: "ok s \<Longrightarrow> \<exists>op. may e op \<and> op_allowed op (contents s) \<and>
      contents (step e s) = apply_op op (contents s)"
begin

lemma run_ok: "ok s \<Longrightarrow> ok (fold step es s)"
  by (induction es arbitrary: s) (auto simp: step_ok)

lemma run_inv: "ok s \<Longrightarrow> tables_inv (contents s) \<Longrightarrow> tables_inv (contents (fold step es s))"
proof (induction es arbitrary: s)
  case (Cons e es)
  obtain op where "op_allowed op (contents s)" "contents (step e s) = apply_op op (contents s)"
    using step_label Cons.prems by blast
  then show ?case using Cons apply_op_inv step_ok by simp
qed simp

lemma run_seq: "ok s \<Longrightarrow> t_seq (contents s) \<le> t_seq (contents (fold step es s))"
proof (induction es arbitrary: s)
  case (Cons e es)
  obtain op where "op_allowed op (contents s)" "contents (step e s) = apply_op op (contents s)"
    using step_label Cons.prems by blast
  then have "t_seq (contents s) \<le> t_seq (contents (step e s))" using apply_op_seq by simp
  then show ?case using Cons.IH[of "step e s"] step_ok Cons.prems by fastforce
qed simp

lemma run_isolation:
  "ok s \<Longrightarrow> (\<And>e op. e \<in> set es \<Longrightarrow> may e op \<Longrightarrow> op_user op \<noteq> Some u) \<Longrightarrow>
   owned u (contents (fold step es s)) = owned u (contents s)"
proof (induction es arbitrary: s)
  case (Cons e es)
  obtain op where op: "may e op" "contents (step e s) = apply_op op (contents s)"
    using step_label Cons.prems(1) by blast
  then have "op_user op \<noteq> Some u" using Cons.prems(2)[of e op] by simp
  then have "owned u (contents (step e s)) = owned u (contents s)"
    using op(2) by (simp add: apply_op_owned)
  moreover have "owned u (contents (fold step es (step e s))) = owned u (contents (step e s))"
    using Cons.prems step_ok by (intro Cons.IH) auto
  ultimately show ?case by simp
qed simp

lemma run_durable:
  "ok s \<Longrightarrow> r \<in> set (t_entries (contents s)) \<Longrightarrow>
   (\<And>e op. e \<in> set es \<Longrightarrow> may e op \<Longrightarrow> \<not> op_touches (row_id r) (row_owner r) op) \<Longrightarrow>
   r \<in> set (t_entries (contents (fold step es s)))"
proof (induction es arbitrary: s)
  case (Cons e es)
  obtain op where op: "may e op" "contents (step e s) = apply_op op (contents s)"
    using step_label Cons.prems(1) by blast
  then have "\<not> op_touches (row_id r) (row_owner r) op" using Cons.prems(3)[of e op] by simp
  then have "r \<in> set (t_entries (contents (step e s)))"
    using op(2) Cons.prems(2) by (simp add: apply_op_keeps_row)
  then show ?case using Cons.prems step_ok by (auto intro!: Cons.IH)
qed simp

lemma run_no_reuse:
  "ok s \<Longrightarrow> r \<in> set (t_entries (contents (fold step es s))) \<Longrightarrow> row_id r \<le> t_seq (contents s) \<Longrightarrow>
   \<exists>r0 \<in> set (t_entries (contents s)). row_id r0 = row_id r \<and> row_owner r0 = row_owner r \<and>
     row_ts r0 = row_ts r"
proof (induction es arbitrary: s)
  case (Cons e es)
  obtain op where op: "op_allowed op (contents s)" "contents (step e s) = apply_op op (contents s)"
    using step_label Cons.prems(1) by blast
  have "t_seq (contents s) \<le> t_seq (contents (step e s))" using op apply_op_seq by simp
  then obtain r1 where r1: "r1 \<in> set (t_entries (contents (step e s)))" "row_id r1 = row_id r"
    "row_owner r1 = row_owner r" "row_ts r1 = row_ts r"
    using Cons.IH[of "step e s"] Cons.prems step_ok by auto
  then show ?case using apply_op_row_origin[OF op(1), of r1] op(2) Cons.prems by auto
qed auto

end

end
