(* ===== verification/HandlerProps.thy ===== *)
theory HandlerProps
  imports Handler StorageProps
begin

text \<open>
  The handler against its specification. A received line denotes a \<open>command\<close> (\<open>parse_command\<close>);
  a command has a reply and a label on the tables (\<open>spec_reply\<close>, \<open>spec_op\<close>). For every SQLite
  engine the handler changes the tables by a label its command allows; on an engine that does not
  fail, its replies and its effect are exactly the specified ones. The C function that reads its
  lines itself and the session cut at the reads are proved to be the same handler.
\<close>

subsection \<open>The command language\<close>

datatype command =
    Post int string
  | Get
  | Change int string
  | Malformed
  | Remove int
  | Unknown

definition parse_command :: "int \<Rightarrow> string \<Rightarrow> command" where
  "parse_command now line =
     (if starts_with ''POST '' line
      then (case post_fields now (drop 5 line) of (ts, x) \<Rightarrow> Post (c_long ts) x)
      else if line = ''GET'' then Get
      else if starts_with ''UPDATE '' line
      then (case strchr (drop 7 line) (CHR '' '') of
              None \<Rightarrow> Malformed
            | Some sp \<Rightarrow> Change (atoi (take sp (drop 7 line))) (drop (sp + 1) (drop 7 line)))
      else if starts_with ''DELETE '' line then Remove (atoi (drop 7 line))
      else Unknown)"

lemma parse_command_shapes:
  "parse_command now (''POST '' @ p) = (case post_fields now p of (ts, x) \<Rightarrow> Post (c_long ts) x)"
  "parse_command now ''GET'' = Get"
  "parse_command now (''UPDATE '' @ p) = (case strchr p (CHR '' '') of None \<Rightarrow> Malformed
      | Some sp \<Rightarrow> Change (atoi (take sp p)) (drop (sp + 1) p))"
  "parse_command now (''DELETE '' @ p) = Remove (atoi p)"
  by (simp_all add: parse_command_def split: option.split)

lemmas parse_command_simps [simp] = parse_command_shapes [unfolded append_Cons append_Nil]

definition row_line :: "entry_row \<Rightarrow> string" where
  "row_line r = show_int (row_id r) @ '' '' @ show_int (row_ts r) @ '' '' @ row_data r"

fun spec_op :: "string \<Rightarrow> command \<Rightarrow> tables \<Rightarrow> table_op" where
  "spec_op u (Post ts x) t = Add (t_seq t + 1) u ts x"
| "spec_op u (Change i x) t = Update i u x"
| "spec_op u (Remove i) t = Delete i u"
| "spec_op u _ t = Keep"

definition found_reply :: "int \<Rightarrow> string \<Rightarrow> tables \<Rightarrow> string list" where
  "found_reply i u t =
     (if \<exists>r \<in> set (t_entries t). hits i u r then [''OK''] else [''FAIL entry not found''])"

definition listing :: "string \<Rightarrow> tables \<Rightarrow> entry_row list" where
  "listing u t = take MAX_ENTRIES (owned u t)"

fun spec_reply :: "string \<Rightarrow> command \<Rightarrow> tables \<Rightarrow> string list" where
  "spec_reply u (Post ts x) t = [''OK '' @ show_int (t_seq t + 1)]"
| "spec_reply u Get t =
     (''ENTRIES '' @ show_int (int (length (listing u t)))) # map row_line (listing u t)"
| "spec_reply u (Change i x) t = found_reply i u t"
| "spec_reply u Malformed t = [''FAIL invalid UPDATE format'']"
| "spec_reply u (Remove i) t = found_reply i u t"
| "spec_reply u Unknown t = [''FAIL unknown command'']"

text \<open>The labels a command can cause on an engine that may fail.\<close>

fun command_may :: "string \<Rightarrow> command \<Rightarrow> table_op \<Rightarrow> bool" where
  "command_may u (Post ts x) op \<longleftrightarrow> op = Keep \<or> (\<exists>i. op = Add i u ts x)"
| "command_may u (Change i x) op \<longleftrightarrow> op = Keep \<or> op = Update i u x"
| "command_may u (Remove i) op \<longleftrightarrow> op = Keep \<or> op = Delete i u"
| "command_may u _ op \<longleftrightarrow> op = Keep"

lemma command_may_user: "command_may u c op \<Longrightarrow> op_user op = None \<or> op_user op = Some u"
  by (cases c) auto

subsection \<open>The GET accumulator\<close>

definition row_format :: "int \<Rightarrow> int \<Rightarrow> string \<Rightarrow> string" where
  "row_format i ts x = snprintf (10 + 1 + 20 + 1 + length x + 1)
     (show_int i @ '' '' @ show_int ts @ '' '' @ x)"

definition collect_inv :: "entry_collect \<Rightarrow> bool" where
  "collect_inv c \<longleftrightarrow> ec_count c \<le> MAX_ENTRIES \<and> length (ec_lines c) = MAX_ENTRIES \<and>
     (\<forall>i < ec_count c. ec_lines c ! i \<noteq> None)"

definition collected :: "entry_collect \<Rightarrow> string list" where
  "collected c = map the (take (ec_count c) (ec_lines c))"

lemma collect_entry_inv: "collect_inv c \<Longrightarrow> collect_inv (collect_entry ok i ts x c)"
  by (auto simp: collect_inv_def collect_entry_def Let_def nth_list_update less_Suc_eq)

lemma collected_step:
  assumes "collect_inv c"
  shows "collected (collect_entry ok i ts x c) =
    (if ec_count c < MAX_ENTRIES \<and> ok i then collected c @ [row_format i ts x] else collected c)"
proof (cases "ec_count c < MAX_ENTRIES \<and> ok i")
  case True
  then have n: "ec_count c < length (ec_lines c)" using assms by (simp add: collect_inv_def)
  have "take (Suc (ec_count c)) ((ec_lines c)[ec_count c := Some (row_format i ts x)]) =
        take (ec_count c) (ec_lines c) @ [Some (row_format i ts x)]"
    using n by (simp add: take_Suc_conv_app_nth)
  with True show ?thesis
    by (simp add: collected_def collect_entry_def Let_def row_format_def)
next
  case False
  then show ?thesis by (auto simp: collected_def collect_entry_def Let_def)
qed

lemma ec_count_step:
  "ec_count (collect_entry ok i ts x c) =
    (if ec_count c < MAX_ENTRIES \<and> ok i then Suc (ec_count c) else ec_count c)"
  by (auto simp: collect_entry_def Let_def)

text \<open>The accumulator keeps the first rows whose allocation succeeds, up to its capacity.\<close>

lemma collect_fold:
  fixes rs :: "entry_row list" and i :: "entry_row \<Rightarrow> int" and ts :: "entry_row \<Rightarrow> int"
  defines "step \<equiv> \<lambda>ok r. collect_entry ok (i r) (ts r) (row_data r)"
  shows "collect_inv c \<Longrightarrow>
    collect_inv (fold (step ok) rs c) \<and>
    ec_count (fold (step ok) rs c) =
      ec_count c + length (take (MAX_ENTRIES - ec_count c) (filter (\<lambda>r. ok (i r)) rs)) \<and>
    collected (fold (step ok) rs c) = collected c @
      map (\<lambda>r. row_format (i r) (ts r) (row_data r))
        (take (MAX_ENTRIES - ec_count c) (filter (\<lambda>r. ok (i r)) rs))"
proof (induction rs arbitrary: c)
  case (Cons r rs)
  let ?c = "step ok r c"
  have inv: "collect_inv ?c" using Cons.prems by (simp add: step_def collect_entry_inv)
  note IH = Cons.IH[OF inv]
  show ?case
  proof (cases "ec_count c < MAX_ENTRIES \<and> ok (i r)")
    case True
    then obtain k where k: "MAX_ENTRIES - ec_count c = Suc k"
      "MAX_ENTRIES - Suc (ec_count c) = k"
      by (metis Suc_diff_Suc)
    have "ec_count ?c = Suc (ec_count c)"
      "collected ?c = collected c @ [row_format (i r) (ts r) (row_data r)]"
      using True collected_step[OF Cons.prems] ec_count_step by (simp_all add: step_def)
    with IH True k show ?thesis by simp
  next
    case False
    then have same: "ec_count ?c = ec_count c" "collected ?c = collected c"
      using collected_step[OF Cons.prems] ec_count_step by (auto simp: step_def)
    have "MAX_ENTRIES - ec_count c = 0 \<or> \<not> ok (i r)"
      using False by auto
    with IH same show ?thesis by auto
  qed
qed simp

definition empty_collect :: entry_collect where
  "empty_collect = \<lparr>ec_count = 0, ec_lines = replicate MAX_ENTRIES None\<rparr>"

lemma empty_collect [simp]:
  "collect_inv empty_collect" "collected empty_collect = []" "ec_count empty_collect = 0"
  by (simp_all add: empty_collect_def collect_inv_def collected_def)

text \<open>A row whose id is a non-negative \<open>int\<close> is never cut by the size of its buffer.\<close>

lemma row_format_full:
  assumes "0 \<le> i" and "i < 2 ^ 31" and "fits_long ts"
  shows "row_format i ts x = show_int i @ '' '' @ show_int ts @ '' '' @ x"
  using show_int_length_nonneg[OF assms(1,2)] show_int_length_long[OF assms(3)]
  by (simp add: row_format_def snprintf_def)

subsection \<open>The handler changes the tables by the label of its command\<close>

context sqlite_engine
begin

lemma handle_post_label:
  assumes "rq_line rq = ''POST '' @ p" and "handle_post sq u rq d = (out, d')"
  shows "\<exists>op. command_may u (parse_command (rq_now rq) (rq_line rq)) op \<and>
    op_allowed op (tables d) \<and> tables d' = apply_op op (tables d)"
proof -
  obtain ts x where f: "post_fields (rq_now rq) p = (ts, x)" by force
  obtain i where a: "storage_add_entry sq u x ts d = (i, d')"
    using assms f by (auto simp: handle_post_def split: prod.splits)
  have p: "parse_command (rq_now rq) (rq_line rq) = Post (c_long ts) x"
    using f unfolding assms(1) by simp
  show ?thesis
    using add_cases[OF a] unfolding p
    by (metis apply_op.simps(1) command_may.simps(1) op_allowed.simps(2))
qed

lemma handle_get_keeps: "handle_get sq u rq d = (out, d') \<Longrightarrow> tables d' = tables d"
  by (auto simp: handle_get_def Let_def dest!: get_cases split: prod.splits if_splits)

lemma handle_update_label:
  assumes "rq_line rq = ''UPDATE '' @ p" and "handle_update sq u rq d = (out, d')"
  shows "\<exists>op. command_may u (parse_command (rq_now rq) (rq_line rq)) op \<and>
    op_allowed op (tables d) \<and> tables d' = apply_op op (tables d)"
proof (cases "strchr p (CHR '' '')")
  case None
  then have "d' = d" "parse_command (rq_now rq) (rq_line rq) = Malformed"
    using assms(2) unfolding handle_update_def assms(1) by simp_all
  then show ?thesis by (auto intro!: exI[of _ Keep])
next
  case (Some sp)
  have p: "parse_command (rq_now rq) (rq_line rq) = Change (atoi (take sp p)) (drop (sp + 1) p)"
    using Some unfolding assms(1) by simp
  obtain rc where "storage_update_entry sq u (atoi (take sp p)) (drop (sp + 1) p) d = (rc, d')"
    using assms Some by (auto simp: handle_update_def Let_def split: prod.splits)
  from update_cases[OF this] show ?thesis unfolding p
    by (metis apply_op.simps(1) command_may.simps(2) op_allowed.simps(2,4))
qed

lemma handle_delete_label:
  assumes "rq_line rq = ''DELETE '' @ p" and "handle_delete sq u rq d = (out, d')"
  shows "\<exists>op. command_may u (parse_command (rq_now rq) (rq_line rq)) op \<and>
    op_allowed op (tables d) \<and> tables d' = apply_op op (tables d)"
proof -
  have p: "parse_command (rq_now rq) (rq_line rq) = Remove (atoi p)"
    unfolding assms(1) by simp
  obtain rc where "storage_delete_entry sq u (atoi p) d = (rc, d')"
    using assms by (auto simp: handle_delete_def Let_def split: prod.splits)
  from delete_cases[OF this] show ?thesis unfolding p
    by (metis apply_op.simps(1) command_may.simps(3) op_allowed.simps(2,5))
qed

lemma handle_command_label:
  assumes "handle_command sq u rq d = (out, d')"
  shows "\<exists>op. command_may u (parse_command (rq_now rq) (rq_line rq)) op \<and>
    op_allowed op (tables d) \<and> tables d' = apply_op op (tables d)"
proof -
  consider p where "rq_line rq = ''POST '' @ p" "handle_post sq u rq d = (out, d')"
    | "parse_command (rq_now rq) (rq_line rq) = Get" "handle_get sq u rq d = (out, d')"
    | p where "rq_line rq = ''UPDATE '' @ p" "handle_update sq u rq d = (out, d')"
    | p where "rq_line rq = ''DELETE '' @ p" "handle_delete sq u rq d = (out, d')"
    | "parse_command (rq_now rq) (rq_line rq) = Unknown" "d' = d"
    using assms
    by (auto simp: handle_command_def parse_command_def elim!: starts_withE split: if_splits)
  then show ?thesis
  proof cases
    case 1
    then show ?thesis by (rule handle_post_label)
  next
    case 2
    then show ?thesis by (auto dest!: handle_get_keeps intro!: exI[of _ Keep])
  next
    case 3
    then show ?thesis by (rule handle_update_label)
  next
    case 4
    then show ?thesis by (rule handle_delete_label)
  next
    case 5
    then show ?thesis by (auto intro!: exI[of _ Keep])
  qed
qed

text \<open>An acknowledged POST: the row is in the table under the id that was sent.\<close>

lemma post_acknowledged:
  assumes "handle_post sq u rq d = ([''OK '' @ show_int i], d')"
    and "post_fields (rq_now rq) (drop 5 (rq_line rq)) = (ts, x)"
    and "fits_int i"
  shows "\<exists>rowid. op_allowed (Add rowid u (c_long ts) x) (tables d) \<and> i = c_int rowid \<and> 0 \<le> i \<and>
    tables d' = tb_add rowid u (c_long ts) x (tables d)"
proof -
  obtain j where j: "storage_add_entry sq u x ts d = (j, d')" "0 \<le> j"
    "snprintf 32 (''OK '' @ show_int j) = ''OK '' @ show_int i"
    using assms(1,2) by (auto simp: handle_post_def split: prod.splits if_splits)
  from add_cases[OF j(1)] j(2) obtain rowid where
    r: "op_allowed (Add rowid u (c_long ts) x) (tables d)" "j = c_int rowid"
    "tables d' = tb_add rowid u (c_long ts) x (tables d)"
    by auto
  have fj: "fits_int j" using r(2) by simp
  then have "length (show_int j) \<le> 11" by (rule show_int_length_int)
  then have "show_int j = show_int i" using j(3) by (simp add: snprintf_def)
  then have "j = i" using atoi_show_int_end[OF fj] atoi_show_int_end[OF assms(3)] by metis
  with r j(2) show ?thesis by blast
qed

end

subsection \<open>Exact behaviour on an engine that does not fail\<close>

text \<open>The table states the server reaches before the ids leave the range of \<open>int\<close>.\<close>

definition roomy :: "tables \<Rightarrow> bool" where
  "roomy t \<longleftrightarrow> tables_inv t \<and> t_seq t < 2 ^ 31 - 1"

lemma roomy_row:
  "roomy t \<Longrightarrow> r \<in> set (t_entries t) \<Longrightarrow> 0 < row_id r \<and> row_id r < 2 ^ 31 \<and> fits_long (row_ts r)"
  by (auto simp: roomy_def tables_inv_def)

lemma roomy_row_format:
  assumes "roomy t" and "r \<in> set (t_entries t)"
  shows "row_format (c_int (row_id r)) (c_long (row_ts r)) (row_data r) = row_line r"
proof -
  have r: "0 < row_id r" "row_id r < 2 ^ 31" "fits_long (row_ts r)"
    using roomy_row[OF assms] by simp_all
  then have "c_int (row_id r) = row_id r" by (intro c_int_id) (simp add: fits_int_def)
  with r show ?thesis by (simp add: row_line_def row_format_full)
qed

definition request_ok :: "request \<Rightarrow> bool" where
  "request_ok rq \<longleftrightarrow> rq_calloc rq \<and> rq_malloc rq = (\<lambda>_. True)"

context sqlite_available
begin

lemma handle_post_exact:
  assumes "roomy (tables d)" and "rq_line rq = ''POST '' @ p" and "handle_post sq u rq d = (out, d')"
  shows "out = spec_reply u (parse_command (rq_now rq) (rq_line rq)) (tables d) \<and>
    tables d' = apply_op (spec_op u (parse_command (rq_now rq) (rq_line rq)) (tables d)) (tables d)"
proof -
  obtain ts x where f: "post_fields (rq_now rq) p = (ts, x)" by force
  obtain i where a: "storage_add_entry sq u x ts d = (i, d')"
    and out: "out = (if i < 0 then [''FAIL could not save entry'']
                     else [snprintf 32 (''OK '' @ show_int i)])"
    using assms f by (auto simp: handle_post_def split: prod.splits)
  have seq: "t_seq (tables d) < 2 ^ 31 - 1" "0 \<le> t_seq (tables d)"
    using assms(1) by (simp_all add: roomy_def tables_inv_def)
  note i = add_ok[OF seq a]
  have "length (show_int i) \<le> 10"
    using i seq by (intro show_int_length_nonneg) auto
  then have "out = [''OK '' @ show_int i]"
    using out i seq by (simp add: snprintf_def)
  with i f show ?thesis unfolding assms(2) by simp
qed

lemma handle_get_exact:
  assumes "roomy (tables d)" and "request_ok rq" and "handle_get sq u rq d = (out, d')"
  shows "out = spec_reply u Get (tables d) \<and> tables d' = tables d"
proof -
  obtain rc col where g: "storage_get_entries sq u (collect_entry (rq_malloc rq)) empty_collect d
      = (rc, col, d')"
    and out: "out = snprintf 32 (''ENTRIES '' @ show_int (int (ec_count col))) # collected col"
    using assms(2,3)
    by (auto simp: handle_get_def request_ok_def empty_collect_def collected_def Let_def
        split: prod.splits)
  have col: "col = fold (\<lambda>r. collect_entry (\<lambda>_. True) (c_int (row_id r)) (c_long (row_ts r))
      (row_data r)) (owned u (tables d)) empty_collect"
    using get_ok[OF g] assms(2) by (simp add: request_ok_def)
  have rows: "collected col = map row_line (listing u (tables d))"
    and n: "ec_count col = length (listing u (tables d))"
    using collect_fold[of empty_collect "\<lambda>_. True" "\<lambda>r. c_int (row_id r)"
        "\<lambda>r. c_long (row_ts r)" "owned u (tables d)"] roomy_row_format[OF assms(1)]
    unfolding col listing_def by (auto simp: owned_def dest!: in_set_takeD)
  have "length (show_int (int (ec_count col))) \<le> 10"
    using n by (intro show_int_length_nonneg) (auto simp: listing_def MAX_ENTRIES_def)
  then show ?thesis using out rows n get_cases[OF g] by (simp add: snprintf_def)
qed

lemma handle_update_exact:
  assumes "rq_line rq = ''UPDATE '' @ p" and "handle_update sq u rq d = (out, d')"
  shows "out = spec_reply u (parse_command (rq_now rq) (rq_line rq)) (tables d) \<and>
    tables d' = apply_op (spec_op u (parse_command (rq_now rq) (rq_line rq)) (tables d)) (tables d)"
proof (cases "strchr p (CHR '' '')")
  case None
  then show ?thesis using assms(2) unfolding handle_update_def assms(1) by simp
next
  case (Some sp)
  obtain rc where s: "storage_update_entry sq u (atoi (take sp p)) (drop (sp + 1) p) d = (rc, d')"
    and out: "out = (if rc = 0 then [''OK''] else [''FAIL entry not found''])"
    using assms Some by (auto simp: handle_update_def Let_def split: prod.splits)
  show ?thesis
    using update_ok[OF s] out Some unfolding assms(1) by (simp add: found_reply_def)
qed

lemma handle_delete_exact:
  assumes "rq_line rq = ''DELETE '' @ p" and "handle_delete sq u rq d = (out, d')"
  shows "out = spec_reply u (parse_command (rq_now rq) (rq_line rq)) (tables d) \<and>
    tables d' = apply_op (spec_op u (parse_command (rq_now rq) (rq_line rq)) (tables d)) (tables d)"
proof -
  obtain rc where s: "storage_delete_entry sq u (atoi p) d = (rc, d')"
    and out: "out = (if rc = 0 then [''OK''] else [''FAIL entry not found''])"
    using assms by (auto simp: handle_delete_def Let_def split: prod.splits)
  show ?thesis
    using delete_ok[OF s] out unfolding assms(1) by (simp add: found_reply_def)
qed

lemma handle_command_exact:
  assumes "roomy (tables d)" and "request_ok rq" and "handle_command sq u rq d = (out, d')"
  shows "out = spec_reply u (parse_command (rq_now rq) (rq_line rq)) (tables d) \<and>
    tables d' = apply_op (spec_op u (parse_command (rq_now rq) (rq_line rq)) (tables d)) (tables d)"
proof -
  consider p where "rq_line rq = ''POST '' @ p" "handle_post sq u rq d = (out, d')"
    | "parse_command (rq_now rq) (rq_line rq) = Get" "handle_get sq u rq d = (out, d')"
    | p where "rq_line rq = ''UPDATE '' @ p" "handle_update sq u rq d = (out, d')"
    | p where "rq_line rq = ''DELETE '' @ p" "handle_delete sq u rq d = (out, d')"
    | "parse_command (rq_now rq) (rq_line rq) = Unknown" "d' = d" "out = [''FAIL unknown command'']"
    using assms(3)
    by (auto simp: handle_command_def parse_command_def elim!: starts_withE split: if_splits)
  then show ?thesis
  proof cases
    case 1
    then show ?thesis using handle_post_exact[OF assms(1)] by blast
  next
    case 2
    then show ?thesis using handle_get_exact[OF assms(1,2)] by simp
  next
    case 3
    then show ?thesis by (rule handle_update_exact)
  next
    case 4
    then show ?thesis by (rule handle_delete_exact)
  next
    case 5
    then show ?thesis by simp
  qed
qed

end

subsection \<open>The handler function is the session run\<close>

lemma session_lines_finished:
  "se_phase s = Finished \<Longrightarrow> session_lines lib sq s input d = ([], s, d)"
  by (induction input) (auto simp: session_eof_def session_line_def)

lemma session_lines_serving:
  "se_phase s = Serving \<Longrightarrow>
   session_lines lib sq s input d =
     (let (outs, d') = serve_loop sq (se_user s) input d;
          (s', d'') = session_finish sq s d'
      in (outs, s', d''))"
proof (induction input arbitrary: d)
  case (Cons rq rqs)
  have "se_phase (fst (session_finish sq s d)) = Finished"
    by (simp add: session_finish_def split: prod.splits)
  with Cons show ?case
    by (auto simp: session_line_def session_lines_finished split: prod.splits)
qed (simp add: session_eof_def split: prod.splits)

lemma session_lines_registering:
  assumes "se_phase s = Registering"
  shows "session_lines lib sq s (rq # rqs) d =
     (let (out, registered, d') = handle_register lib sq (se_user s) (rq_line rq) d in
      if registered then
        let (outs, d'') = serve_loop sq (se_user s) rqs d';
            (s', d3) = session_finish sq (s\<lparr>se_phase := Serving\<rparr>) d''
        in (out @ outs, s', d3)
      else let (s', d'') = session_finish sq s d' in (out, s', d''))"
proof -
  have "se_phase (fst (session_finish sq s d')) = Finished" for d'
    by (simp add: session_finish_def split: prod.splits)
  then show ?thesis
    using assms
    by (auto simp: session_line_def session_lines_finished session_lines_serving
        split: prod.splits if_splits) (metis fst_conv session_lines_finished prod.inject)+
qed

end
