(* ===== verification/Link.thy ===== *)
theory Link
  imports Net HandlerProps
begin

text \<open>
  Client and server together. \<open>diary_link\<close> is the interface the client relies on: a line that is
  sent reaches the peer whole and the peer's reply lines can be read in order, short lines fit the
  client's buffers, and what was sealed can be opened again. Inside it the \<open>net_*\<close> functions are
  described by the peer's answers alone. The provider is the server model: \<open>wire_proto\<close> is a
  connection whose peer is a session of Handler.thy, and it satisfies the interface for every SQLite
  engine, framing and cryptography that keep their documented promises (\<open>sealed_server\<close>).
\<close>

subsection \<open>The interface of the connection\<close>

text \<open>A sealed payload is a base64 line: not empty, no space, no end of line.\<close>

definition sealed :: "string \<Rightarrow> bool" where
  "sealed b \<longleftrightarrow> b \<noteq> [] \<and> CHR '' '' \<notin> set b \<and> CHR 0x0A \<notin> set b"

definition one_line :: "string \<Rightarrow> bool" where
  "one_line l \<longleftrightarrow> CHR 0x0A \<notin> set l"

text \<open>The entry the client makes of a row of the server.\<close>

definition entry_of :: "(string \<Rightarrow> bytes option) \<Rightarrow> entry_row \<Rightarrow> diary_entry" where
  "entry_of unseal r = \<lparr>de_id = row_id r, de_timestamp = row_ts r,
     de_text = (case unseal (row_data r) of
         Some plain \<Rightarrow> Some plain | None \<Rightarrow> Some ''[could not decrypt]'')\<rparr>"

definition good_row :: "entry_row \<Rightarrow> bool" where
  "good_row r \<longleftrightarrow> 0 < row_id r \<and> row_id r < 2 ^ 31 \<and> fits_long (row_ts r) \<and> sealed (row_data r)"

lemma digit_not_newline: "is_digit c \<Longrightarrow> c \<noteq> CHR 0x0A"
  by (auto simp: is_digit_def)

lemma show_int_one_line: "CHR 0x0A \<notin> set (show_int x)"
  by (auto dest!: show_int_chars digit_not_newline)

lemma parse_row_line:
  assumes "good_row r" and "pr_alloc P 20 w"
  shows "parse_row P (row_line r) w = Some (entry_of (pr_unseal P) r)"
proof -
  have "fits_int (row_id r)" using assms(1) by (simp add: good_row_def fits_int_def)
  moreover have "strtok_r (CHR '' '') (row_line r) =
      Some (show_int (row_id r), show_int (row_ts r) @ '' '' @ row_data r)"
    using strtok_r_token[of "show_int (row_id r)" "CHR '' ''"] show_int_no_space
    by (simp add: row_line_def)
  moreover have "strtok_r (CHR '' '') (show_int (row_ts r) @ CHR '' '' # row_data r) =
      Some (show_int (row_ts r), row_data r)"
    using strtok_r_token[of "show_int (row_ts r)" "CHR '' ''"] show_int_no_space by simp
  moreover have "strtok_r (CHR '' '') (row_data r) = Some (row_data r, [])"
    using assms(1) by (intro strtok_r_last) (auto simp: good_row_def sealed_def)
  ultimately show ?thesis
    using assms
    by (simp add: parse_row_def entry_of_def good_row_def atoi_show_int_end atol_show_int_end
        split: option.split)
qed

lemma parse_row_empty:
  assumes "row_data r = []"
  shows "parse_row P (row_line r) w = None"
proof -
  have "strtok_r (CHR '' '') (row_line r) = Some (show_int (row_id r), show_int (row_ts r) @ '' '')"
    using strtok_r_token[of "show_int (row_id r)" "CHR '' ''"] show_int_no_space assms
    by (simp add: row_line_def)
  moreover have "strtok_r (CHR '' '') (show_int (row_ts r) @ '' '') = Some (show_int (row_ts r), [])"
    using strtok_r_token[of "show_int (row_ts r)" "CHR '' ''"] show_int_no_space by simp
  ultimately show ?thesis by (simp add: parse_row_def)
qed

locale diary_link =
  fixes P :: "'w proto" and inbox :: "'w \<Rightarrow> string list" and peer :: "'w \<Rightarrow> 'p"
    and answer :: "string \<Rightarrow> 'p \<Rightarrow> string list \<times> 'p"
  assumes send_line: "one_line l \<Longrightarrow> pr_send_line P l w = (rc, w') \<Longrightarrow>
      rc = 0 \<and> inbox w' = inbox w @ fst (answer l (peer w)) \<and> peer w' = snd (answer l (peer w))"
    and send_prefixed: "one_line (p @ b) \<Longrightarrow> pr_send_prefixed P p b w = (rc, w') \<Longrightarrow>
      rc = 0 \<and> inbox w' = inbox w @ fst (answer (p @ b) (peer w)) \<and>
      peer w' = snd (answer (p @ b) (peer w))"
    and recv_line: "inbox w = l # ls \<Longrightarrow> length l < n \<Longrightarrow> pr_recv_line P n w = (r, w') \<Longrightarrow>
      r = Some l \<and> inbox w' = ls \<and> peer w' = peer w"
    and recv_line_dyn: "inbox w = l # ls \<Longrightarrow> pr_recv_line_dyn P w = (r, w') \<Longrightarrow>
      r = Some l \<and> inbox w' = ls \<and> peer w' = peer w"
    and seal: "pr_seal P t w = (r, w') \<Longrightarrow> inbox w' = inbox w \<and> peer w' = peer w \<and>
      (\<exists>b. r = Some b \<and> sealed b \<and> pr_unseal P b = Some t)"
    and alloc: "pr_alloc P n w"
begin

lemma post_by_answer:
  assumes "inbox w = []" and "fits_long timestamp"
  shows "\<exists>b. sealed b \<and> pr_unseal P b = Some (c_str text) \<and>
    (\<forall>i p'. answer (post_prefix timestamp @ b) (peer w) = ([''OK '' @ show_int i], p') \<longrightarrow>
       fits_int i \<longrightarrow>
       (\<exists>w'. net_post_entry P text timestamp w = (i, w') \<and> inbox w' = [] \<and> peer w' = p'))"
proof -
  obtain r w1 where s: "pr_seal P (c_str text) w = (r, w1)" by force
  obtain b where b: "r = Some b" "sealed b" "pr_unseal P b = Some (c_str text)"
    and w1: "inbox w1 = []" "peer w1 = peer w"
    using seal[OF s] assms(1) by auto
  obtain rc w2 where p: "pr_send_prefixed P (post_prefix timestamp) b w1 = (rc, w2)" by force
  have "one_line (post_prefix timestamp @ b)"
    using b(2) show_int_one_line
    by (auto simp: one_line_def sealed_def post_prefix_def snprintf_def dest!: in_set_takeD)
  note w2 = send_prefixed[OF this p]
  have "\<exists>w'. net_post_entry P text timestamp w = (i, w') \<and> inbox w' = [] \<and> peer w' = p'"
    if a: "answer (post_prefix timestamp @ b) (peer w) = ([''OK '' @ show_int i], p')"
      "fits_int i" for i p'
  proof -
    obtain l w3 where l: "pr_recv_line P 64 w2 = (l, w3)" by force
    have "length (''OK '' @ show_int i) < 64" using show_int_length_int[OF a(2)] by simp
    from recv_line[OF _ this l, of "[]"] have "l = Some (''OK '' @ show_int i)"
      "inbox w3 = []" "peer w3 = p'"
      using w1 w2 a(1) by simp_all
    moreover have "atoi (drop 3 (''OK '' @ show_int i)) = i"
      using atoi_show_int_end[OF a(2)] by simp
    ultimately show ?thesis using s b(1) p w2 l by (simp add: net_post_entry_def)
  qed
  then show ?thesis using b by blast
qed

lemma update_by_answer:
  assumes "inbox w = []" and "fits_int i"
  shows "\<exists>b. sealed b \<and> pr_unseal P b = Some (c_str text) \<and>
    (\<forall>l p'. answer (''UPDATE '' @ show_int i @ '' '' @ b) (peer w) = ([l], p') \<longrightarrow> length l < 64 \<longrightarrow>
       (\<exists>w'. net_update_entry P i text w = (if l = ''OK'' then i else -1, w') \<and> inbox w' = [] \<and>
         peer w' = p'))"
proof -
  obtain r w1 where s: "pr_seal P (c_str text) w = (r, w1)" by force
  obtain b where b: "r = Some b" "sealed b" "pr_unseal P b = Some (c_str text)"
    and w1: "inbox w1 = []" "peer w1 = peer w"
    using seal[OF s] assms(1) by auto
  have pre: "snprintf 32 (''UPDATE '' @ show_int i @ '' '') = ''UPDATE '' @ show_int i @ '' ''"
    using show_int_length_int[OF assms(2)] by (intro snprintf_fits) simp
  obtain rc w2 where p: "pr_send_prefixed P (''UPDATE '' @ show_int i @ '' '') b w1 = (rc, w2)"
    by force
  have "one_line ((''UPDATE '' @ show_int i @ '' '') @ b)"
    using b(2) show_int_one_line by (auto simp: one_line_def sealed_def)
  note w2 = send_prefixed[OF this p]
  have "\<exists>w'. net_update_entry P i text w = (if l = ''OK'' then i else -1, w') \<and> inbox w' = [] \<and>
      peer w' = p'"
    if a: "answer (''UPDATE '' @ show_int i @ '' '' @ b) (peer w) = ([l], p')" "length l < 64" for l p'
  proof -
    obtain l' w3 where l: "pr_recv_line P 64 w2 = (l', w3)" by force
    from recv_line[OF _ a(2) l, of "[]"] have "l' = Some l" "inbox w3 = []" "peer w3 = p'"
      using w1 w2 a(1) by simp_all
    then show ?thesis using s b(1) p w2 l pre by (simp add: net_update_entry_def)
  qed
  then show ?thesis using b by blast
qed

lemma delete_by_answer:
  assumes "inbox w = []" and "fits_int i"
    and "answer (''DELETE '' @ show_int i) (peer w) = ([l], p')" and "length l < 64"
  shows "\<exists>w'. net_delete_entry P i w = (if l = ''OK'' then 0 else -1, w') \<and> inbox w' = [] \<and>
    peer w' = p'"
proof -
  have cmd: "snprintf 32 (''DELETE '' @ show_int i) = ''DELETE '' @ show_int i"
    using show_int_length_int[OF assms(2)] by (intro snprintf_fits) simp
  obtain rc w1 where p: "pr_send_line P (''DELETE '' @ show_int i) w = (rc, w1)" by force
  have "one_line (''DELETE '' @ show_int i)"
    using show_int_one_line by (auto simp: one_line_def)
  note w1 = send_line[OF this p]
  obtain l' w2 where l: "pr_recv_line P 64 w1 = (l', w2)" by force
  from recv_line[OF _ assms(4) l, of "[]"] have "l' = Some l" "inbox w2 = []" "peer w2 = p'"
    using w1 assms(1,3) by simp_all
  then show ?thesis using p w1 l cmd by (simp add: net_delete_entry_def)
qed

lemma recv_rows_lines:
  "inbox w = map row_line rs @ ls \<Longrightarrow> \<forall>r \<in> set rs. good_row r \<Longrightarrow>
   \<exists>w'. recv_rows P (length rs) w = (Some (map (entry_of (pr_unseal P)) rs), w') \<and>
     inbox w' = ls \<and> peer w' = peer w"
proof (induction rs arbitrary: w)
  case (Cons r rs)
  obtain l w1 where l: "pr_recv_line_dyn P w = (l, w1)" by force
  from recv_line_dyn[OF _ l, of "row_line r" "map row_line rs @ ls"] Cons.prems(1)
  have w1: "l = Some (row_line r)" "inbox w1 = map row_line rs @ ls" "peer w1 = peer w"
    by simp_all
  obtain w' where "recv_rows P (length rs) w1 = (Some (map (entry_of (pr_unseal P)) rs), w')"
    "inbox w' = ls" "peer w' = peer w1"
    using Cons.IH[OF w1(2)] Cons.prems(2) by auto
  then show ?case using l w1 Cons.prems(2) parse_row_line[of r P w1] alloc by simp
qed simp

lemma get_by_answer:
  assumes "inbox w = []" and "length rs < 2 ^ 31" and "\<forall>r \<in> set rs. good_row r"
    and "answer ''GET'' (peer w) =
      ((''ENTRIES '' @ show_int (int (length rs))) # map row_line rs, p')"
  shows "\<exists>w'. net_get_entries P w =
      (Some (qsort entry_cmp_newest_first (map (entry_of (pr_unseal P)) rs)), w') \<and>
    inbox w' = [] \<and> peer w' = p'"
proof -
  have n: "fits_int (int (length rs))" using assms(2) by (simp add: fits_int_def)
  obtain rc w1 where p: "pr_send_line P ''GET'' w = (rc, w1)" by force
  have "one_line ''GET''" by (simp add: one_line_def)
  note w1 = send_line[OF this p]
  obtain hdr w2 where h: "pr_recv_line P 64 w1 = (hdr, w2)" by force
  have "length (''ENTRIES '' @ show_int (int (length rs))) < 64"
    using show_int_length_int[OF n] by simp
  from recv_line[OF _ this h, of "map row_line rs"]
  have w2: "hdr = Some (''ENTRIES '' @ show_int (int (length rs)))" "inbox w2 = map row_line rs"
    "peer w2 = p'"
    using w1 assms(1,4) by simp_all
  have i: "atoi (drop 8 (''ENTRIES '' @ show_int (int (length rs)))) = int (length rs)"
    using atoi_show_int_end[OF n] by simp
  obtain w3 where w3: "recv_rows P (length rs) w2 = (Some (map (entry_of (pr_unseal P)) rs), w3)"
    "inbox w3 = []" "peer w3 = peer w2"
    using recv_rows_lines[of w2 rs "[]"] w2(2) assms(3) by auto
  have "net_get_entries P w =
      (if length rs = 0 then (Some [], w2)
       else (Some (qsort entry_cmp_newest_first (map (entry_of (pr_unseal P)) rs)), w3))"
    using p w1 h w2(1) i alloc w3(1) by (simp add: net_get_entries_def)
  then show ?thesis
    using w2 w3 by (cases "rs = []") (auto simp: qsort_def)
qed

lemma recv_rows_empty_row:
  "inbox w = map row_line (rs @ r # qs) \<Longrightarrow> \<forall>q \<in> set rs. good_row q \<Longrightarrow> row_data r = [] \<Longrightarrow>
   \<exists>w'. recv_rows P (length (rs @ r # qs)) w = (None, w') \<and> inbox w' = map row_line qs"
proof (induction rs arbitrary: w)
  case Nil
  obtain l w1 where l: "pr_recv_line_dyn P w = (l, w1)" by force
  from recv_line_dyn[OF _ l, of "row_line r" "map row_line qs"] Nil.prems
  have "l = Some (row_line r)" "inbox w1 = map row_line qs" by simp_all
  then show ?case using l Nil.prems(3) by (simp add: parse_row_empty)
next
  case (Cons q rs)
  obtain l w1 where l: "pr_recv_line_dyn P w = (l, w1)" by force
  from recv_line_dyn[OF _ l, of "row_line q" "map row_line (rs @ r # qs)"] Cons.prems(1)
  have w1: "l = Some (row_line q)" "inbox w1 = map row_line (rs @ r # qs)" by simp_all
  obtain w' where "recv_rows P (length (rs @ r # qs)) w1 = (None, w')" "inbox w' = map row_line qs"
    using Cons.IH[OF w1(2)] Cons.prems(2,3) by auto
  then show ?case using l w1 Cons.prems(2) parse_row_line[of q P w1] alloc by simp
qed

lemma get_empty_row:
  assumes "inbox w = []" and "length rows < 2 ^ 31" and "rows = rs @ r # qs"
    and "\<forall>q \<in> set rs. good_row q" and "row_data r = []"
    and "answer ''GET'' (peer w) =
      ((''ENTRIES '' @ show_int (int (length rows))) # map row_line rows, p')"
  shows "\<exists>w'. net_get_entries P w = (None, w') \<and> inbox w' = map row_line qs"
proof -
  have n: "fits_int (int (length rows))" using assms(2) by (simp add: fits_int_def)
  obtain rc w1 where p: "pr_send_line P ''GET'' w = (rc, w1)" by force
  have "one_line ''GET''" by (simp add: one_line_def)
  note w1 = send_line[OF this p]
  obtain hdr w2 where h: "pr_recv_line P 64 w1 = (hdr, w2)" by force
  have "length (''ENTRIES '' @ show_int (int (length rows))) < 64"
    using show_int_length_int[OF n] by simp
  from recv_line[OF _ this h, of "map row_line rows"]
  have w2: "hdr = Some (''ENTRIES '' @ show_int (int (length rows)))" "inbox w2 = map row_line rows"
    using w1 assms(1,6) by simp_all
  have i: "atoi (drop 8 (''ENTRIES '' @ show_int (int (length rows)))) = int (length rows)"
    using atoi_show_int_end[OF n] by simp
  obtain w3 where "recv_rows P (length rows) w2 = (None, w3)" "inbox w3 = map row_line qs"
    using recv_rows_empty_row[of w2 rs r qs] w2(2) assms(3-5) by auto
  moreover have pos: "rows \<noteq> []" using assms(3) by simp
  ultimately show ?thesis
    using p w1 h w2(1) i alloc by (simp add: net_get_entries_def)
qed

end

subsection \<open>The wire between the client and a session of the server\<close>

record 'd server_peer =
  pe_db :: 'd
  pe_session :: session
  pe_clock :: "nat \<Rightarrow> int"
  pe_ticks :: nat

definition peer_request :: "string \<Rightarrow> 'd server_peer \<Rightarrow> request" where
  "peer_request l p = \<lparr>rq_line = l, rq_now = pe_clock p (pe_ticks p), rq_calloc = True,
     rq_malloc = (\<lambda>_. True)\<rparr>"

definition server_answer ::
    "server_lib \<Rightarrow> 'd sqlite \<Rightarrow> string \<Rightarrow> 'd server_peer \<Rightarrow> string list \<times> 'd server_peer" where
  "server_answer lib sq l p =
     (let (out, se, d) = session_line lib sq (pe_session p) (peer_request l p) (pe_db p)
      in (out, p\<lparr>pe_db := d, pe_session := se, pe_ticks := Suc (pe_ticks p)\<rparr>))"

record 'd wire =
  wi_peer :: "'d server_peer"
  wi_inbox :: "string list"
  wi_seeds :: nat

text \<open>
  A connection whose peer is the server model. \<open>enc k t\<close> seals \<open>t\<close> with the \<open>k\<close>-th draw of
  randomness, \<open>dec\<close> opens with the user's key.
\<close>

definition wire_send :: "server_lib \<Rightarrow> 'd sqlite \<Rightarrow> string \<Rightarrow> 'd wire \<Rightarrow> int \<times> 'd wire" where
  "wire_send lib sq l w =
     (let (out, p) = server_answer lib sq l (wi_peer w)
      in (0, w\<lparr>wi_peer := p, wi_inbox := wi_inbox w @ out\<rparr>))"

definition wire_proto ::
    "server_lib \<Rightarrow> 'd sqlite \<Rightarrow> (nat \<Rightarrow> string \<Rightarrow> string) \<Rightarrow> (string \<Rightarrow> bytes option) \<Rightarrow> 'd wire proto" where
  "wire_proto lib sq enc dec =
     \<lparr>pr_seal = (\<lambda>t w. (Some (enc (wi_seeds w) t), w\<lparr>wi_seeds := Suc (wi_seeds w)\<rparr>)),
      pr_unseal = dec,
      pr_send_line = wire_send lib sq,
      pr_send_prefixed = (\<lambda>p b. wire_send lib sq (p @ b)),
      pr_recv_line = (\<lambda>n w. case wi_inbox w of [] \<Rightarrow> (None, w)
        | l # ls \<Rightarrow> (lib_recv_line lib n l, w\<lparr>wi_inbox := ls\<rparr>)),
      pr_recv_line_dyn = (\<lambda>w. case wi_inbox w of [] \<Rightarrow> (None, w)
        | l # ls \<Rightarrow> (Some l, w\<lparr>wi_inbox := ls\<rparr>)),
      pr_alloc = (\<lambda>n w. True)\<rparr>"

locale sealed_server = sqlite_available +
  fixes lib :: server_lib and enc :: "nat \<Rightarrow> string \<Rightarrow> string" and dec :: "string \<Rightarrow> bytes option"
  assumes frames: "length l < n \<Longrightarrow> lib_recv_line lib n l = Some l"
    and seals: "sealed (enc k t) \<and> dec (enc k t) = Some t"

sublocale sealed_server \<subseteq> link: diary_link "wire_proto lib sq enc dec" wi_inbox wi_peer
    "server_answer lib sq"
proof unfold_locales
  fix n l ls w r w'
  assume "wi_inbox w = l # ls" "length l < n" "pr_recv_line (wire_proto lib sq enc dec) n w = (r, w')"
  then show "r = Some l \<and> wi_inbox w' = ls \<and> wi_peer w' = wi_peer w"
    using frames[of l n] by (auto simp: wire_proto_def)
qed (auto simp: wire_proto_def wire_send_def seals split: prod.splits)

end
