(* ===== verification/System.thy ===== *)
theory System
  imports HandlerProps
begin

text \<open>
  The server process as a whole: \<open>proto_serve\<close> forks one child per authenticated connection, each
  child runs \<open>diary_handle\<close>, and the children share nothing but the database. A run is a list of
  events (a connection is accepted, a line arrives on it, its peer hangs up) in any interleaving.
  The unit of interleaving is one line: while it serves a line, a child runs at most one statement
  that writes, and SQLite serialises those. \<open>who k\<close> is the identity the library authenticated on
  connection \<open>k\<close>. The contents of the database over any such run are those of a
  \<open>table_machine\<close>.
\<close>

record 'd system =
  sy_db :: 'd
  sy_sessions :: "nat \<Rightarrow> session option"

datatype event = Connect nat | Line nat request | Hangup nat

fun event_conn :: "event \<Rightarrow> nat" where
  "event_conn (Connect k) = k"
| "event_conn (Line k rq) = k"
| "event_conn (Hangup k) = k"

text \<open>One event: the lines sent on its connection and the new state.\<close>

fun sys_step :: "server_lib \<Rightarrow> 'd sqlite \<Rightarrow> string \<Rightarrow> (nat \<Rightarrow> string) \<Rightarrow> event \<Rightarrow> 'd system \<Rightarrow>
    string list \<times> 'd system" where
  "sys_step lib sq path who (Connect k) s =
     (case sy_sessions s k of
        Some se \<Rightarrow> ([], s)
      | None \<Rightarrow>
          let (out, se, d) = session_open sq path (who k) (sy_db s)
          in (out, s\<lparr>sy_db := d, sy_sessions := (sy_sessions s)(k \<mapsto> se)\<rparr>))"
| "sys_step lib sq path who (Line k rq) s =
     (case sy_sessions s k of
        None \<Rightarrow> ([], s)
      | Some se \<Rightarrow>
          let (out, se', d) = session_line lib sq se rq (sy_db s)
          in (out, s\<lparr>sy_db := d, sy_sessions := (sy_sessions s)(k \<mapsto> se')\<rparr>))"
| "sys_step lib sq path who (Hangup k) s =
     (case sy_sessions s k of
        None \<Rightarrow> ([], s)
      | Some se \<Rightarrow>
          let (se', d) = session_eof sq se (sy_db s)
          in ([], s\<lparr>sy_db := d, sy_sessions := (sy_sessions s)(k \<mapsto> se')\<rparr>))"

definition sys_next :: "server_lib \<Rightarrow> 'd sqlite \<Rightarrow> string \<Rightarrow> (nat \<Rightarrow> string) \<Rightarrow> event \<Rightarrow>
    'd system \<Rightarrow> 'd system" where
  "sys_next lib sq path who e s = snd (sys_step lib sq path who e s)"

definition sys_run :: "server_lib \<Rightarrow> 'd sqlite \<Rightarrow> string \<Rightarrow> (nat \<Rightarrow> string) \<Rightarrow> event list \<Rightarrow>
    'd system \<Rightarrow> 'd system" where
  "sys_run lib sq path who es s = fold (sys_next lib sq path who) es s"

text \<open>Every session serves the identity its connection was authenticated for.\<close>

definition sys_ok :: "(nat \<Rightarrow> string) \<Rightarrow> 'd system \<Rightarrow> bool" where
  "sys_ok who s \<longleftrightarrow> (\<forall>k se. sy_sessions s k = Some se \<longrightarrow> se_user se = who k)"

definition sys_start :: "'d \<Rightarrow> 'd system" where
  "sys_start d = \<lparr>sy_db = d, sy_sessions = (\<lambda>_. None)\<rparr>"

lemma sys_ok_start [simp]: "sys_ok who (sys_start d)"
  by (simp add: sys_ok_def sys_start_def)

text \<open>The labels an event can cause.\<close>

fun event_may :: "(nat \<Rightarrow> string) \<Rightarrow> event \<Rightarrow> table_op \<Rightarrow> bool" where
  "event_may who (Line k rq) op \<longleftrightarrow>
     (\<exists>key. op = Register (who k) key) \<or>
     command_may (who k) (parse_command (rq_now rq) (rq_line rq)) op"
| "event_may who _ op \<longleftrightarrow> op = Keep"

lemma command_may_Keep [simp]: "command_may u c Keep"
  by (cases c) auto

lemma event_may_user: "event_may who e op \<Longrightarrow> op_user op = None \<or> op_user op = Some (who (event_conn e))"
  by (cases e) (auto dest: command_may_user)

subsection \<open>Sessions keep their user\<close>

lemma session_open_user: "session_open sq p u d = (out, se, d') \<Longrightarrow> se_user se = u"
  by (auto simp: session_open_def split: prod.splits if_splits)

lemma session_finish_user: "session_finish sq se d = (se', d') \<Longrightarrow> se_user se' = se_user se"
  by (auto simp: session_finish_def split: prod.splits)

lemma session_line_user: "session_line lib sq se rq d = (out, se', d') \<Longrightarrow> se_user se' = se_user se"
  by (auto simp: session_line_def dest: session_finish_user
      split: phase.splits prod.splits if_splits)

lemma session_eof_user: "session_eof sq se d = (se', d') \<Longrightarrow> se_user se' = se_user se"
  by (auto simp: session_eof_def dest: session_finish_user split: if_splits)

lemma sys_next_ok: "sys_ok who s \<Longrightarrow> sys_ok who (sys_next lib sq path who e s)"
  by (cases e)
     (auto simp: sys_ok_def sys_next_def Let_def dest: session_open_user session_line_user
       session_eof_user split: option.splits prod.splits)

subsection \<open>Sessions move the tables by labels\<close>

context sqlite_engine
begin

lemma session_open_keeps: "session_open sq p u d = (out, se, d') \<Longrightarrow> tables d' = tables d"
  by (auto simp: session_open_def dest!: init_keeps user_exists_keeps split: prod.splits if_splits)

lemma session_finish_keeps: "session_finish sq se d = (se', d') \<Longrightarrow> tables d' = tables d"
  by (auto simp: session_finish_def dest!: close_keeps split: prod.splits)

lemma session_eof_keeps: "session_eof sq se d = (se', d') \<Longrightarrow> tables d' = tables d"
  by (auto simp: session_eof_def dest!: session_finish_keeps split: if_splits)

lemma handle_register_label:
  assumes "handle_register lib sq u line d = (out, reg, d')"
  shows "\<exists>op. (op = Keep \<or> (\<exists>key. op = Register u key \<and> valid_enc_key lib key)) \<and>
    tables d' = apply_op op (tables d) \<and> (reg \<longrightarrow> op \<noteq> Keep) \<and> (\<not> reg \<longrightarrow> op = Keep)"
proof (cases "\<exists>l. lib_recv_line lib (lib_max_line lib) line = Some l \<and>
    starts_with ''REGISTER '' l \<and> valid_enc_key lib (drop 9 l)")
  case True
  then obtain l rc where l: "lib_recv_line lib (lib_max_line lib) line = Some l"
    "starts_with ''REGISTER '' l" "valid_enc_key lib (drop 9 l)"
    and r: "storage_register_user sq u (drop 9 l) d = (rc, d')" and reg: "reg = (rc = 0)"
    using assms by (auto simp: handle_register_def Let_def split: prod.splits if_splits)
  from register_cases[OF r] show ?thesis
  proof
    assume "rc = 0 \<and> tables d' = apply_op (Register u (drop 9 l)) (tables d)"
    then show ?thesis using l reg by (intro exI[of _ "Register u (drop 9 l)"]) simp
  next
    assume "rc = -1 \<and> tables d' = tables d"
    then show ?thesis using reg by (intro exI[of _ Keep]) simp
  qed
next
  case False
  then have "d' = d \<and> \<not> reg"
    using assms by (auto simp: handle_register_def Let_def split: option.splits if_splits)
  then show ?thesis by (intro exI[of _ Keep]) simp
qed

lemma session_line_label:
  assumes "session_line lib sq se rq d = (out, se', d')"
  shows "\<exists>op. ((\<exists>key. op = Register (se_user se) key) \<or>
      command_may (se_user se) (parse_command (rq_now rq) (rq_line rq)) op) \<and>
    op_allowed op (tables d) \<and> tables d' = apply_op op (tables d)"
proof (cases "se_phase se")
  case Registering
  obtain out1 reg d1 where r: "handle_register lib sq (se_user se) (rq_line rq) d = (out1, reg, d1)"
    using prod_cases3 by blast
  have t: "tables d' = tables d1"
    using assms Registering r
    by (auto simp: session_line_def dest!: session_finish_keeps split: prod.splits if_splits)
  obtain op where op: "op = Keep \<or> (\<exists>key. op = Register (se_user se) key)"
    "tables d1 = apply_op op (tables d)"
    using handle_register_label[OF r] by blast
  have "op_allowed op (tables d)" using op(1) by auto
  then show ?thesis using op t by (intro exI[of _ op]) auto
next
  case Serving
  show ?thesis
  proof (cases "rq_line rq = ''QUIT''")
    case True
    then have "tables d' = tables d"
      using assms Serving
      by (auto simp: session_line_def dest!: session_finish_keeps split: prod.splits)
    then show ?thesis by (auto intro!: exI[of _ Keep])
  next
    case False
    then obtain out1 where "handle_command sq (se_user se) rq d = (out1, d')"
      using assms Serving by (auto simp: session_line_def split: prod.splits)
    then show ?thesis using handle_command_label by blast
  qed
next
  case Finished
  then show ?thesis using assms by (auto simp: session_line_def intro!: exI[of _ Keep])
qed

lemma sys_next_label:
  assumes "sys_ok who s"
  shows "\<exists>op. event_may who e op \<and> op_allowed op (tables (sy_db s)) \<and>
    tables (sy_db (sys_next lib sq path who e s)) = apply_op op (tables (sy_db s))"
proof (cases e)
  case (Connect k)
  then show ?thesis
    by (auto simp: sys_next_def dest!: session_open_keeps split: option.splits prod.splits
        intro!: exI[of _ Keep])
next
  case (Hangup k)
  then show ?thesis
    by (auto simp: sys_next_def dest!: session_eof_keeps split: option.splits prod.splits
        intro!: exI[of _ Keep])
next
  case (Line k rq)
  show ?thesis
  proof (cases "sy_sessions s k")
    case None
    with Line show ?thesis by (auto simp: sys_next_def intro!: exI[of _ Keep])
  next
    case (Some se)
    obtain out se' d' where l: "session_line lib sq se rq (sy_db s) = (out, se', d')"
      using prod_cases3 by blast
    have "se_user se = who k" using assms Some by (simp add: sys_ok_def)
    with session_line_label[OF l] Line Some l show ?thesis by (simp add: sys_next_def)
  qed
qed

end

sublocale sqlite_engine \<subseteq> server: table_machine "sys_next lib sq path who" "\<lambda>s. tables (sy_db s)"
    "sys_ok who" "event_may who" for lib path who
  by unfold_locales (fact sys_next_ok sys_next_label)+

subsection \<open>The invariant of the reachable states\<close>

inductive reachable :: "server_lib \<Rightarrow> 'd sqlite \<Rightarrow> string \<Rightarrow> (nat \<Rightarrow> string) \<Rightarrow> 'd \<Rightarrow> 'd system \<Rightarrow> bool"
  for lib sq path who d0 where
  start: "reachable lib sq path who d0 (sys_start d0)"
| step: "reachable lib sq path who d0 s \<Longrightarrow>
    reachable lib sq path who d0 (snd (sys_step lib sq path who e s))"

text \<open>
  The tables are well formed, every stored encryption key passed the handler's check, every entry
  belongs to a registered user, a session that is past the registration belongs to a registered
  user, and a session that still runs holds the open database handle.
\<close>

definition data_inv :: "server_lib \<Rightarrow> tables \<Rightarrow> bool" where
  "data_inv lib t \<longleftrightarrow> tables_inv t \<and> (\<forall>(u, k) \<in> set (t_users t). valid_enc_key lib k) \<and>
     (\<forall>r \<in> set (t_entries t). registered (row_owner r) t)"

definition session_inv :: "tables \<Rightarrow> session \<Rightarrow> bool" where
  "session_inv t se \<longleftrightarrow> (se_phase se = Serving \<longrightarrow> registered (se_user se) t) \<and>
     (se_phase se \<noteq> Finished \<longrightarrow> se_db se)"

definition system_inv :: "server_lib \<Rightarrow> (nat \<Rightarrow> string) \<Rightarrow> tables \<Rightarrow> (nat \<Rightarrow> session option) \<Rightarrow> bool" where
  "system_inv lib who t ses \<longleftrightarrow> data_inv lib t \<and>
     (\<forall>k se. ses k = Some se \<longrightarrow> se_user se = who k \<and> session_inv t se)"

lemma registered_mono: "registered u t \<Longrightarrow> registered u (apply_op op t)"
  by (cases op) (auto simp: table_defs)

lemma session_inv_mono: "session_inv t se \<Longrightarrow> session_inv (apply_op op t) se"
  by (auto simp: session_inv_def registered_mono)

text \<open>A label keeps the data invariant if a new key is valid and a new row has a registered owner.\<close>

lemma data_inv_apply:
  assumes "data_inv lib t" and "op_allowed op t"
    and "\<And>u k. op = Register u k \<Longrightarrow> valid_enc_key lib k"
    and "\<And>i u ts x. op = Add i u ts x \<Longrightarrow> registered u t"
  shows "data_inv lib (apply_op op t)"
proof -
  have "tables_inv (apply_op op t)"
    using assms(1,2) by (simp add: data_inv_def apply_op_inv)
  moreover have "\<forall>(u, k) \<in> set (t_users (apply_op op t)). valid_enc_key lib k"
    using assms(1,3) by (cases op) (auto simp: data_inv_def table_defs)
  moreover have "\<forall>r \<in> set (t_entries (apply_op op t)). registered (row_owner r) (apply_op op t)"
    using assms(1,4) by (cases op) (auto simp: data_inv_def table_defs split: if_splits)
  ultimately show ?thesis by (simp add: data_inv_def)
qed

lemma command_may_no_register: "command_may u c op \<Longrightarrow> op \<noteq> Register v k"
  by (cases c) auto

lemma command_may_add: "command_may u c (Add i v ts x) \<Longrightarrow> v = u"
  by (cases c) auto

context sqlite_engine
begin

lemma session_open_inv:
  assumes "session_open sq p u d = (out, se, d')"
  shows "session_inv (tables d') se"
  using assms user_exists_sound[of u] init_keeps user_exists_keeps
  by (fastforce simp: session_open_def session_inv_def split: prod.splits if_splits)

lemma session_finish_inv: "session_finish sq se d = (se', d') \<Longrightarrow> session_inv t se'"
  by (auto simp: session_finish_def session_inv_def split: prod.splits)

text \<open>One line keeps the invariant of the data and of its own session.\<close>

lemma session_line_inv:
  assumes "session_line lib sq se rq d = (out, se', d')"
    and "data_inv lib (tables d)" and "session_inv (tables d) se"
  shows "\<exists>op. tables d' = apply_op op (tables d) \<and> data_inv lib (tables d') \<and>
    session_inv (tables d') se'"
proof (cases "se_phase se")
  case Registering
  obtain out1 reg d1 where r: "handle_register lib sq (se_user se) (rq_line rq) d = (out1, reg, d1)"
    using prod_cases3 by blast
  obtain op where op: "op = Keep \<or> (\<exists>key. op = Register (se_user se) key \<and> valid_enc_key lib key)"
    "tables d1 = apply_op op (tables d)" "reg \<longrightarrow> op \<noteq> Keep"
    using handle_register_label[OF r] by blast
  have "op_allowed op (tables d)" using op(1) by auto
  then have inv: "data_inv lib (tables d1)"
    using op(1,2) assms(2) data_inv_apply[of lib "tables d" op] by auto
  show ?thesis
  proof (cases reg)
    case True
    then have "se' = se\<lparr>se_phase := Serving\<rparr>" "d' = d1"
      using assms(1) Registering r by (auto simp: session_line_def)
    moreover have "registered (se_user se) (tables d1)"
      using op True by (auto simp: tb_register_def registered_def)
    ultimately show ?thesis
      using op(2) inv assms(3) Registering by (auto simp: session_inv_def)
  next
    case False
    then have f: "session_finish sq se d1 = (se', d')"
      using assms(1) Registering r by (auto simp: session_line_def split: prod.splits)
    show ?thesis
      using session_finish_keeps[OF f] session_finish_inv[OF f] op(2) inv by auto
  qed
next
  case Serving
  show ?thesis
  proof (cases "rq_line rq = ''QUIT''")
    case True
    then have f: "session_finish sq se d = (se', d')"
      using assms Serving by (auto simp: session_line_def split: prod.splits)
    show ?thesis
      using session_finish_keeps[OF f] session_finish_inv[OF f] assms(2)
      by (intro exI[of _ Keep]) simp
  next
    case False
    then obtain out1 where h: "handle_command sq (se_user se) rq d = (out1, d')" and se': "se' = se"
      using assms Serving by (auto simp: session_line_def split: prod.splits)
    obtain op where op: "command_may (se_user se) (parse_command (rq_now rq) (rq_line rq)) op"
      "op_allowed op (tables d)" "tables d' = apply_op op (tables d)"
      using handle_command_label[OF h] by blast
    have "data_inv lib (tables d')"
      using data_inv_apply[OF assms(2) op(2)] op(1,3) assms(3) Serving
        command_may_no_register command_may_add
      by (force simp: session_inv_def)
    then show ?thesis using op(3) se' assms(3) session_inv_mono by metis
  qed
next
  case Finished
  then show ?thesis
    using assms by (auto simp: session_line_def intro!: exI[of _ Keep])
qed

lemma system_inv_update:
  assumes "system_inv lib who t ses" and "t' = apply_op op t" and "data_inv lib t'"
    and "session_inv t' se" and "se_user se = who k"
  shows "system_inv lib who t' (ses(k \<mapsto> se))"
  using assms session_inv_mono by (auto simp: system_inv_def)

lemma sys_step_inv:
  assumes "system_inv lib who (tables (sy_db s)) (sy_sessions s)"
  shows "system_inv lib who (tables (sy_db (snd (sys_step lib sq path who e s))))
    (sy_sessions (snd (sys_step lib sq path who e s)))"
proof (cases e)
  case (Connect k)
  obtain out se d' where o: "session_open sq path (who k) (sy_db s) = (out, se, d')"
    using prod_cases3 by blast
  show ?thesis
    using assms Connect o session_open_user[OF o] session_open_keeps[OF o] session_open_inv[OF o]
      system_inv_update[OF assms, of "tables d'" Keep se k]
    by (auto simp: system_inv_def split: option.splits)
next
  case (Hangup k)
  show ?thesis
  proof (cases "sy_sessions s k")
    case (Some se)
    obtain se' d' where o: "session_eof sq se (sy_db s) = (se', d')" by force
    have "session_inv (tables d') se'"
      using assms Some o session_eof_keeps[OF o] session_finish_inv
      by (auto simp: session_eof_def system_inv_def split: if_splits)
    then show ?thesis
      using assms Hangup Some o session_eof_user[OF o] session_eof_keeps[OF o]
        system_inv_update[OF assms, of "tables d'" Keep se' k]
      by (auto simp: system_inv_def)
  qed (use assms Hangup in simp)
next
  case (Line k rq)
  show ?thesis
  proof (cases "sy_sessions s k")
    case (Some se)
    obtain out se' d' where o: "session_line lib sq se rq (sy_db s) = (out, se', d')"
      using prod_cases3 by blast
    have "data_inv lib (tables (sy_db s))" "session_inv (tables (sy_db s)) se" "se_user se = who k"
      using assms Some by (auto simp: system_inv_def)
    then obtain op where op: "tables d' = apply_op op (tables (sy_db s))"
      "data_inv lib (tables d')" "session_inv (tables d') se'" "se_user se' = who k"
      using session_line_inv[OF o] session_line_user[OF o] by metis
    then show ?thesis
      using Line Some o system_inv_update[OF assms op] by simp
  qed (use assms Line in simp)
qed

lemma reachable_inv:
  assumes "reachable lib sq path who d0 s" and "data_inv lib (tables d0)"
  shows "system_inv lib who (tables (sy_db s)) (sy_sessions s)"
  using assms
proof (induction rule: reachable.induct)
  case start
  then show ?case by (simp add: system_inv_def sys_start_def)
next
  case (step s e)
  then show ?case using sys_step_inv by blast
qed

subsection \<open>Whole runs\<close>

lemma sys_run_isolation:
  assumes "sys_ok who s" and "\<forall>e \<in> set es. who (event_conn e) \<noteq> u"
  shows "owned u (tables (sy_db (sys_run lib sq path who es s))) = owned u (tables (sy_db s))"
  unfolding sys_run_def
  by (rule server.run_isolation) (use assms event_may_user in \<open>fastforce+\<close>)

lemma sys_run_no_reuse:
  assumes "sys_ok who s" and "r \<in> set (t_entries (tables (sy_db (sys_run lib sq path who es s))))"
    and "row_id r \<le> t_seq (tables (sy_db s))"
  shows "\<exists>r0 \<in> set (t_entries (tables (sy_db s))). row_id r0 = row_id r \<and>
    row_owner r0 = row_owner r \<and> row_ts r0 = row_ts r"
  using server.run_no_reuse[of who s r lib path es] assms by (simp add: sys_run_def)

lemma sys_run_durable:
  assumes "sys_ok who s" and "r \<in> set (t_entries (tables (sy_db s)))"
    and "\<And>e op. e \<in> set es \<Longrightarrow> event_may who e op \<Longrightarrow> \<not> op_touches (row_id r) (row_owner r) op"
  shows "r \<in> set (t_entries (tables (sy_db (sys_run lib sq path who es s))))"
  unfolding sys_run_def by (rule server.run_durable) (use assms in auto)

end

text \<open>An UPDATE or DELETE of the row \<open>i\<close> on a connection of \<open>u\<close>.\<close>

fun aims_at :: "(nat \<Rightarrow> string) \<Rightarrow> string \<Rightarrow> int \<Rightarrow> event \<Rightarrow> bool" where
  "aims_at who u i (Line k rq) \<longleftrightarrow> who k = u \<and>
     (case parse_command (rq_now rq) (rq_line rq) of
        Change j x \<Rightarrow> j = i | Remove j \<Rightarrow> j = i | _ \<Rightarrow> False)"
| "aims_at who u i _ \<longleftrightarrow> False"

lemma touch_aims: "event_may who e op \<Longrightarrow> op_touches i u op \<Longrightarrow> aims_at who u i e"
  by (cases e) (auto split: command.splits elim: command_may.elims)

end
