(* ===== verification/ServerClaims.thy ===== *)
theory ServerClaims
  imports System
begin

text \<open>
  The properties of the server: the handler against its specification, framing and bounds of its
  replies, the life of a session, and what holds of the database over every interleaving of
  clients. The invariant of the reachable system states is here too.
\<close>

subsection \<open>Concrete values for the witnesses\<close>

definition demo_lib :: server_lib where
  "demo_lib = \<lparr>lib_max_line = 16384, lib_recv_line = (\<lambda>n l. if length l < n then Some l else None),
     lib_enc_pk_len = 2,
     lib_base642bin = (\<lambda>n s. if length s = 4 then Some [CHR 0x01, CHR 0x02] else None)\<rparr>"

definition demo_request :: "int \<Rightarrow> string \<Rightarrow> request" where
  "demo_request now line = \<lparr>rq_line = line, rq_now = now, rq_calloc = True, rq_malloc = (\<lambda>_. True)\<rparr>"

definition demo_tables :: tables where
  "demo_tables = \<lparr>t_users = [(''a1'', ''QUFB''), (''b2'', ''QkJC'')],
     t_entries = [\<lparr>row_id = 1, row_owner = ''a1'', row_ts = 100, row_data = ''WA==''\<rparr>,
                  \<lparr>row_id = 2, row_owner = ''b2'', row_ts = 200, row_data = ''WQ==''\<rparr>],
     t_seq = 2\<rparr>"

definition demo_db :: ref_db where
  "demo_db = \<lparr>rd_tables = demo_tables, rd_fail = []\<rparr>"

lemmas demo_defs = demo_lib_def demo_request_def demo_tables_def demo_db_def

lemma demo_roomy: "roomy (rd_tables demo_db)"
  by (simp add: roomy_def tables_inv_def demo_defs fits_long_def)

lemma demo_request_ok: "request_ok (demo_request now line)"
  by (simp add: request_ok_def demo_request_def)

definition demo_system :: "ref_db system" where
  "demo_system = \<lparr>sy_db = demo_db,
     sy_sessions = [0 \<mapsto> \<lparr>se_user = ''a1'', se_phase = Serving, se_db = True\<rparr>]\<rparr>"

lemma demo_system_ok: "sys_ok (\<lambda>_. ''a1'') demo_system"
  by (simp add: sys_ok_def demo_system_def)

subsection \<open>The handler and its specification\<close>

text \<open>
  C1. On an SQLite engine that does not fail, with memory available and ids below \<open>2 ^ 31 - 1\<close>, the
  handler of one line is the specification: the reply is \<open>spec_reply\<close> of the parsed command, and the
  tables change by exactly \<open>spec_op\<close>.
\<close>

theorem handle_command_refines:
  assumes "sqlite_available sq tables" and "roomy (tables d)" and "request_ok rq"
    and "handle_command sq u rq d = (out, d')"
  shows "out = spec_reply u (parse_command (rq_now rq) (rq_line rq)) (tables d) \<and>
    tables d' = apply_op (spec_op u (parse_command (rq_now rq) (rq_line rq)) (tables d)) (tables d)"
  using assms by (rule sqlite_available.handle_command_exact)

theorem handle_command_refines_witness:
  "fst (handle_command (ref_sqlite False) ''a1'' (demo_request 7 ''GET'') demo_db) =
     [''ENTRIES 1'', ''1 100 WA=='']"
proof -
  obtain out d' where h: "handle_command (ref_sqlite False) ''a1'' (demo_request 7 ''GET'') demo_db
      = (out, d')" by force
  have "out = spec_reply ''a1'' Get demo_tables"
    using handle_command_refines[OF calm.sqlite_available_axioms demo_roomy demo_request_ok h]
    by (simp add: demo_request_def demo_db_def)
  also have "\<dots> = [''ENTRIES 1'', ''1 100 WA=='']"
    by (simp add: listing_def owned_def demo_tables_def MAX_ENTRIES_def row_line_def show_int_def
        show_nat.simps)
  finally show ?thesis using h by simp
qed

text \<open>
  The C function \<open>diary_handle\<close>, which reads its lines itself, and the session cut at its reads
  (open, one step per line, end of input) send the same lines and leave the same database and the
  same database handle, for every input.
\<close>

theorem diary_handle_is_session_run:
  "diary_handle lib sq db_path u input d =
     (case session_run lib sq db_path u input d of (out, s, d') \<Rightarrow> (out, se_db s, d'))"
proof (cases input)
  case Nil
  then show ?thesis
    by (auto simp: diary_handle_def session_run_def session_open_def session_finish_def
        session_eof_def session_lines_finished split: prod.splits)
next
  case (Cons rq rqs)
  then show ?thesis
    by (auto simp: diary_handle_def session_run_def session_open_def session_finish_def
        session_lines_finished session_lines_serving session_lines_registering Let_def
        simp del: session_lines.simps serve_loop.simps split: prod.splits if_splits)
qed

text \<open>
  C23. Framing, on every engine, also one that fails midway: a line other than QUIT gets exactly one
  reply line, except a GET with memory for the accumulator, which gets a header \<open>ENTRIES n\<close> and then
  exactly \<open>n\<close> rows, at most \<open>MAX_ENTRIES\<close>.
\<close>

theorem reply_framing:
  "if rq_line rq = ''GET'' \<and> rq_calloc rq
   then \<exists>rows. length rows \<le> MAX_ENTRIES \<and>
     fst (handle_command sq u rq d) = (''ENTRIES '' @ show_int (int (length rows))) # rows
   else \<exists>l. fst (handle_command sq u rq d) = [l]"
proof (cases "rq_line rq = ''GET'' \<and> rq_calloc rq")
  case True
  obtain r d' where r: "sq_run sq sql_select [SqlText u] d = (r, d')" by force
  define col where f: "col = fold (\<lambda>row. collect_entry (rq_malloc rq) (column_int (row ! 0))
        (column_int64 (row ! 1)) (column_text (row ! 2))) (res_rows r) empty_collect"
  have g: "storage_get_entries sq u (collect_entry (rq_malloc rq)) empty_collect d = (0, col, d')"
    by (simp add: storage_get_entries_def r f)
  have inv: "collect_inv (fold (\<lambda>row. collect_entry (rq_malloc rq) (column_int (row ! 0))
        (column_int64 (row ! 1)) (column_text (row ! 2))) rs c)" if "collect_inv c" for rs c
    using that by (induction rs arbitrary: c) (auto simp: collect_entry_inv)
  have c: "collect_inv col" unfolding f by (rule inv) simp
  then have n: "length (collected col) = ec_count col" "ec_count col \<le> MAX_ENTRIES"
    by (auto simp: collected_def collect_inv_def)
  have "length (show_int (int (ec_count col))) \<le> 10"
    using n by (intro show_int_length_nonneg) (auto simp: MAX_ENTRIES_def)
  then have "fst (handle_command sq u rq d) =
      (''ENTRIES '' @ show_int (int (length (collected col)))) # collected col"
    using True g n
    by (simp add: handle_command_def handle_get_def empty_collect_def[symmetric]
        collected_def[symmetric] snprintf_def)
  with True n show ?thesis by auto
next
  case False
  then show ?thesis
    by (auto simp: handle_command_def handle_post_def handle_get_def handle_update_def
        handle_delete_def Let_def split: prod.splits option.splits)
qed

text \<open>
  The buffer the GET accumulator allocates for a row is large enough: for every non-negative
  32-bit id, every 64-bit timestamp and every data, \<open>snprintf\<close> writes the whole row.
\<close>

theorem row_buffer_suffices:
  assumes "0 \<le> i" and "i < 2 ^ 31" and "fits_long ts" and "ec_count c < MAX_ENTRIES" and "ok i"
  shows "ec_lines (collect_entry ok i ts x c) =
    (ec_lines c)[ec_count c := Some (show_int i @ '' '' @ show_int ts @ '' '' @ x)]"
  using row_format_full[OF assms(1-3), of x] assms(4,5)
  by (simp add: collect_entry_def row_format_def Let_def)

theorem row_buffer_suffices_witness:
  "hd (ec_lines (collect_entry (\<lambda>_. True) (2 ^ 31 - 1) (- (2 ^ 63)) ''WA=='' empty_collect)) =
     Some (show_int (2 ^ 31 - 1) @ '' '' @ show_int (- (2 ^ 63)) @ '' '' @ ''WA=='')"
  using row_buffer_suffices[of "2 ^ 31 - 1" "- (2 ^ 63)" empty_collect "\<lambda>_. True" "''WA==''"]
  by (simp add: fits_long_def empty_collect_def MAX_ENTRIES_def numeral_eq_Suc)

text \<open>
  C29. GET shows the oldest rows only: once a user has \<open>MAX_ENTRIES\<close> entries, a further POST is
  acknowledged with a new id, and a GET right after it replies exactly as a GET before it would, so
  the new entry is not listed.
\<close>

theorem get_hides_newest:
  assumes "sqlite_available sq tables" and "roomy (tables d)" and "t_seq (tables d) < 2 ^ 31 - 2"
    and "MAX_ENTRIES \<le> length (owned u (tables d))"
    and "request_ok post" and "rq_line post = ''POST '' @ p" and "request_ok get"
    and "rq_line get = ''GET''"
    and "handle_command sq u post d = (ack, d1)" and "handle_command sq u get d1 = (listed, d2)"
  shows "ack = [''OK '' @ show_int (t_seq (tables d) + 1)] \<and>
    listed = spec_reply u Get (tables d) \<and>
    length (owned u (tables d2)) = Suc (length (owned u (tables d)))"
proof -
  obtain ts x where f: "post_fields (rq_now post) p = (ts, x)" by force
  have c: "parse_command (rq_now post) (rq_line post) = Post (c_long ts) x"
    unfolding assms(6) using f by simp
  note h1 = sqlite_available.handle_command_exact[OF assms(1,2,5,9)]
  then have d1: "tables d1 = tb_add (t_seq (tables d) + 1) u (c_long ts) x (tables d)"
    and ack: "ack = [''OK '' @ show_int (t_seq (tables d) + 1)]"
    using c by simp_all
  have op: "op_allowed (Add (t_seq (tables d) + 1) u (c_long ts) x) (tables d)"
    using assms(2,3) by (simp add: roomy_def tables_inv_def fits_long_def[of "_ + _"])
  have "roomy (tables d1)"
    using apply_op_inv[OF op] assms(2,3) d1 by (simp add: roomy_def tb_add_def)
  from sqlite_available.handle_command_exact[OF assms(1) this assms(7,10)]
  have d2: "listed = spec_reply u Get (tables d1)" "tables d2 = tables d1"
    using assms(8) by simp_all
  have o: "owned u (tables d1) = owned u (tables d) @
      [\<lparr>row_id = t_seq (tables d) + 1, row_owner = u, row_ts = c_long ts, row_data = x\<rparr>]"
    by (simp add: d1 owned_def tb_add_def)
  then have "listing u (tables d1) = listing u (tables d)"
    using assms(4) by (simp add: listing_def)
  then show ?thesis using ack d2 o by simp
qed

definition full_tables :: tables where
  "full_tables = \<lparr>t_users = [(''a1'', ''QUFB'')],
     t_entries = map (\<lambda>i. \<lparr>row_id = int i, row_owner = ''a1'', row_ts = 5, row_data = ''WA==''\<rparr>)
       [1..<1025],
     t_seq = 1024\<rparr>"

lemma full_tables_roomy: "roomy full_tables"
proof -
  have "sorted_wrt (<) [1..<1025::nat]" by (rule sorted_wrt_upt)
  then show ?thesis
    by (auto simp: roomy_def tables_inv_def full_tables_def fits_long_def sorted_wrt_map)
qed

lemma full_tables_owned: "owned ''a1'' full_tables = t_entries full_tables"
  by (simp add: owned_def full_tables_def)

theorem get_hides_newest_witness:
  "\<exists>d1. fst (handle_command (ref_sqlite False) ''a1'' (demo_request 9 ''POST Wg=='')
          \<lparr>rd_tables = full_tables, rd_fail = []\<rparr>) = [''OK 1025''] \<and>
     fst (handle_command (ref_sqlite False) ''a1'' (demo_request 9 ''GET'') d1) =
       spec_reply ''a1'' Get full_tables"
proof -
  let ?d = "\<lparr>rd_tables = full_tables, rd_fail = []\<rparr>"
  obtain ack d1 where h1: "handle_command (ref_sqlite False) ''a1'' (demo_request 9 ''POST Wg=='') ?d
      = (ack, d1)" by force
  obtain out d2 where h2: "handle_command (ref_sqlite False) ''a1'' (demo_request 9 ''GET'') d1
      = (out, d2)" by force
  have "ack = [''OK '' @ show_int (t_seq full_tables + 1)] \<and> out = spec_reply ''a1'' Get full_tables"
    using get_hides_newest[OF calm.sqlite_available_axioms, of ?d "''a1''"
        "demo_request 9 ''POST Wg==''" "''Wg==''" "demo_request 9 ''GET''" ack d1 out d2]
      full_tables_roomy full_tables_owned h1 h2 demo_request_ok
    by (simp add: full_tables_def demo_request_def MAX_ENTRIES_def)
  moreover have "show_int (t_seq full_tables + 1) = ''1025''"
    by (simp add: full_tables_def show_int_def show_nat.simps)
  ultimately show ?thesis using h1 h2 by (intro exI[of _ d1]) simp
qed

subsection \<open>Sessions\<close>

text \<open>
  Resource safety: a connection whose database opened ends with the handle closed, whatever the
  client sends and wherever it hangs up.
\<close>

theorem handle_closes_database:
  assumes "fst (storage_init sq db_path d) = 0"
  shows "fst (snd (diary_handle lib sq db_path u input d)) = False"
  using assms
  by (auto simp: diary_handle_def storage_close_def Let_def split: prod.splits list.splits if_splits)

theorem handle_closes_database_witness:
  "fst (snd (diary_handle demo_lib (ref_sqlite True) ''diary.db'' ''c3''
     [demo_request 5 ''REGISTER bad''] demo_db)) = False"
  by (rule handle_closes_database) (simp add: storage_init_def)

text \<open>
  A client whose registration is refused changes nothing: if the handler does not go on to the
  command loop after the line that answers \<open>REGISTER\<close>, the tables are as before, on every engine.
\<close>

theorem refused_registration_changes_nothing:
  assumes "sqlite_engine sq tables" and "handle_register lib sq u line d = (out, False, d')"
  shows "tables d' = tables d"
  using sqlite_engine.handle_register_label[OF assms] by auto

theorem refused_registration_changes_nothing_witness:
  "fst (handle_register demo_lib (ref_sqlite True) ''c3'' ''REGISTER bad'' demo_db) =
     [''FAIL invalid encryption key''] \<and>
   rd_tables (snd (snd (handle_register demo_lib (ref_sqlite True) ''c3'' ''REGISTER bad'' demo_db)))
     = demo_tables"
proof -
  have h: "handle_register demo_lib (ref_sqlite True) ''c3'' ''REGISTER bad'' demo_db =
      ([''FAIL invalid encryption key''], False, demo_db)"
    by (simp add: handle_register_def demo_lib_def valid_enc_key_def)
  show ?thesis
    using refused_registration_changes_nothing[OF ref.sqlite_engine_axioms h] h
    by (simp add: demo_db_def)
qed

text \<open>
  C31. Two first contacts of one identity that race on \<open>REGISTER\<close> are both accepted: the handler
  answers \<open>OK\<close> to a valid key although the identity is registered meanwhile, and the key stored
  first stays.
\<close>

theorem late_registration_accepted:
  assumes "sqlite_available sq tables" and "registered u (tables d)"
    and "lib_recv_line lib (lib_max_line lib) line = Some (''REGISTER '' @ key)"
    and "valid_enc_key lib key"
    and "handle_register lib sq u line d = (out, go_on, d')"
  shows "out = [''OK''] \<and> go_on \<and> tables d' = tables d"
proof -
  obtain rc d1 where r: "storage_register_user sq u key d = (rc, d1)" by force
  have "rc = 0 \<and> tables d1 = tables d"
    using sqlite_available.register_ok[OF assms(1) r] assms(2) by (simp add: tb_register_def)
  then show ?thesis
    using assms(3-5) r by (auto simp: handle_register_def)
qed

theorem late_registration_accepted_witness:
  "fst (handle_register demo_lib (ref_sqlite False) ''a1'' ''REGISTER QUJC'' demo_db) = [''OK'']"
proof -
  obtain out go_on d' where h:
    "handle_register demo_lib (ref_sqlite False) ''a1'' ''REGISTER QUJC'' demo_db = (out, go_on, d')"
    using prod_cases3 by blast
  have "out = [''OK''] \<and> go_on \<and> rd_tables d' = rd_tables demo_db"
    by (rule late_registration_accepted[OF calm.sqlite_available_axioms _ _ _ h, of "''QUJC''"])
       (simp_all add: demo_defs registered_def valid_enc_key_def)
  then show ?thesis using h by simp
qed

subsection \<open>Every interleaving of clients\<close>

text \<open>
  C9. In every state the server can reach from a well formed database, under every interleaving of
  connections, lines and hang-ups and on every engine: entry ids are positive, strictly increasing
  and at most the largest ever given; every user has one key and it passed the key check; every
  entry belongs to a registered user; a session in its command loop serves the authenticated
  identity of its connection, which is registered; a running session holds an open database.
\<close>

theorem reachable_states_invariant:
  assumes "sqlite_engine sq tables" and "data_inv lib (tables d0)"
    and "reachable lib sq path who d0 s"
  shows "system_inv lib who (tables (sy_db s)) (sy_sessions s)"
  by (rule sqlite_engine.reachable_inv[OF assms(1,3,2)])

lemma demo_data_inv: "data_inv demo_lib demo_tables"
  by (simp add: data_inv_def tables_inv_def demo_defs registered_def valid_enc_key_def fits_long_def)

theorem reachable_states_invariant_witness:
  "\<exists>se. sy_sessions (snd (sys_step demo_lib (ref_sqlite True) ''diary.db'' (\<lambda>_. ''a1'') (Connect 0)
      (sys_start demo_db))) 0 = Some se \<and> se_phase se = Serving \<and>
    session_inv (rd_tables demo_db) se"
proof -
  let ?s = "snd (sys_step demo_lib (ref_sqlite True) ''diary.db'' (\<lambda>_. ''a1'') (Connect 0)
      (sys_start demo_db))"
  have r: "reachable demo_lib (ref_sqlite True) ''diary.db'' (\<lambda>_. ''a1'') demo_db ?s"
    by (intro reachable.intros)
  have i: "system_inv demo_lib (\<lambda>_. ''a1'') (rd_tables (sy_db ?s)) (sy_sessions ?s)"
    by (rule reachable_states_invariant[OF ref.sqlite_engine_axioms _ r])
       (simp add: demo_db_def demo_data_inv)
  have "sy_db ?s = demo_db" "sy_sessions ?s 0 = Some \<lparr>se_user = ''a1'', se_phase = Serving, se_db = True\<rparr>"
    by (simp_all add: sys_start_def session_open_def storage_init_def storage_user_exists_def
        ref_run_def ref_exec_def sqlite3_step_def done_result_def demo_defs registered_def)
  with i show ?thesis by (auto simp: system_inv_def)
qed

text \<open>
  C6. Isolation: whatever the clients of other identities do, in any interleaving and on any engine,
  the entries of a user are exactly as before: same ids, timestamps, data and order.
\<close>

theorem users_are_isolated:
  assumes "sqlite_engine sq tables" and "sys_ok who s"
    and "\<forall>e \<in> set es. who (event_conn e) \<noteq> u"
  shows "owned u (tables (sy_db (sys_run lib sq path who es s))) = owned u (tables (sy_db s))"
  using assms by (rule sqlite_engine.sys_run_isolation)

theorem users_are_isolated_witness:
  "owned ''b2'' (rd_tables (sy_db (sys_run demo_lib (ref_sqlite True) ''diary.db'' (\<lambda>_. ''a1'')
      [Connect 0, Line 0 (demo_request 9 ''DELETE 2''), Hangup 0] (sys_start demo_db)))) =
    [\<lparr>row_id = 2, row_owner = ''b2'', row_ts = 200, row_data = ''WQ==''\<rparr>]"
proof -
  have "owned ''b2'' (rd_tables (sy_db (sys_run demo_lib (ref_sqlite True) ''diary.db'' (\<lambda>_. ''a1'')
      [Connect 0, Line 0 (demo_request 9 ''DELETE 2''), Hangup 0] (sys_start demo_db)))) =
    owned ''b2'' (rd_tables (sy_db (sys_start demo_db)))"
    by (rule users_are_isolated[OF ref.sqlite_engine_axioms]) simp_all
  then show ?thesis by (simp add: sys_start_def owned_def demo_defs)
qed

text \<open>
  C10. Durability: once a session in its command loop answers a POST with \<open>OK i\<close> (ids below
  \<open>2 ^ 31\<close>), the entry with that id, the owner of the connection, the timestamp and the data of the
  request is in the table, and it stays there unchanged under every later run in which the owner
  sends no UPDATE or DELETE for \<open>i\<close>, on every engine.
\<close>

theorem acknowledged_post_is_durable:
  assumes "sqlite_engine sq tables" and "sys_ok who s"
    and "sy_sessions s k = Some se" and "se_phase se = Serving" and "rq_line rq = ''POST '' @ p"
    and "sys_step lib sq path who (Line k rq) s = ([''OK '' @ show_int i], s1)" and "fits_int i"
    and "t_seq (tables (sy_db s1)) < 2 ^ 31" and "0 \<le> t_seq (tables (sy_db s))"
    and "\<forall>e \<in> set es. \<not> aims_at who (who k) i e"
  shows "(case post_fields (rq_now rq) p of (ts, x) \<Rightarrow>
      \<lparr>row_id = i, row_owner = who k, row_ts = c_long ts, row_data = x\<rparr>
        \<in> set (t_entries (tables (sy_db (sys_run lib sq path who es s1)))))"
proof -
  obtain ts x where f: "post_fields (rq_now rq) p = (ts, x)" by force
  have u: "se_user se = who k" using assms(2,3) by (simp add: sys_ok_def)
  have "handle_post sq (who k) rq (sy_db s) = ([''OK '' @ show_int i], sy_db s1)"
    using assms(3-6) u
    by (auto simp: session_line_def handle_command_def split: prod.splits)
  then obtain rowid where r: "op_allowed (Add rowid (who k) (c_long ts) x) (tables (sy_db s))"
    "i = c_int rowid" "tables (sy_db s1) = tb_add rowid (who k) (c_long ts) x (tables (sy_db s))"
    using sqlite_engine.post_acknowledged[OF assms(1), of "who k" rq "sy_db s" i "sy_db s1" ts x]
      f assms(5,7) by auto
  have "rowid = i"
    using r assms(8,9) by (auto simp: tb_add_def fits_int_def)
  let ?r = "\<lparr>row_id = i, row_owner = who k, row_ts = c_long ts, row_data = x\<rparr>"
  have "?r \<in> set (t_entries (tables (sy_db s1)))"
    using r(3) \<open>rowid = i\<close> by (simp add: tb_add_def)
  moreover have "sys_ok who s1"
    using sys_next_ok[OF assms(2), of lib sq path "Line k rq"] assms(6) by (simp add: sys_next_def)
  ultimately have "?r \<in> set (t_entries (tables (sy_db (sys_run lib sq path who es s1))))"
    using assms(10) touch_aims
    by (intro sqlite_engine.sys_run_durable[OF assms(1)]) auto
  then show ?thesis using f by simp
qed

lemma demo_post:
  "sys_step demo_lib (ref_sqlite True) ''diary.db'' (\<lambda>_. ''a1'')
     (Line 0 (demo_request 9 ''POST 50 Wg=='')) demo_system =
   ([''OK '' @ show_int 3],
    demo_system\<lparr>sy_db := \<lparr>rd_tables = tb_add 3 ''a1'' 50 ''Wg=='' demo_tables, rd_fail = []\<rparr>\<rparr>)"
  by (simp add: demo_system_def session_line_def handle_command_def handle_post_def post_fields_def
      strchr_def atol_def strtol_def is_space_def is_digit_def digit_val_def clamp_long_def
      storage_add_entry_def ref_run_def ref_exec_def done_result_def sqlite3_step_def demo_defs
      sql_defs tb_add_def c_long_def c_int_def show_int_def show_nat.simps snprintf_def)

theorem acknowledged_post_is_durable_witness:
  "\<lparr>row_id = 3, row_owner = ''a1'', row_ts = 50, row_data = ''Wg==''\<rparr> \<in> set (t_entries (rd_tables
     (sy_db (sys_run demo_lib (ref_sqlite True) ''diary.db'' (\<lambda>_. ''a1'')
       [Line 0 (demo_request 9 ''DELETE 1''), Hangup 0]
       (demo_system\<lparr>sy_db := \<lparr>rd_tables = tb_add 3 ''a1'' 50 ''Wg=='' demo_tables, rd_fail = []\<rparr>\<rparr>)))))"
  using acknowledged_post_is_durable[OF ref.sqlite_engine_axioms demo_system_ok _ _ _ demo_post,
      of "\<lparr>se_user = ''a1'', se_phase = Serving, se_db = True\<rparr>" "''50 Wg==''"
        "[Line 0 (demo_request 9 ''DELETE 1''), Hangup 0]"]
  by (simp add: demo_system_def demo_defs fits_int_def tb_add_def parse_command_def atoi_def
      strtol_def is_space_def is_digit_def digit_val_def clamp_long_def post_fields_def strchr_def
      atol_def c_int_def c_long_def)



end
