(* ===== verification/EndToEnd.thy ===== *)
theory EndToEnd
  imports Link ServerClaims
begin

text \<open>
  What the user of the client gets: POST, UPDATE and DELETE followed by GET, over a connection to
  the server model. Also the properties of the two halves that make it work: the POST line the
  client writes is the one the server reads, the client's list is sorted, and what a row without
  data does to a GET.
\<close>

subsection \<open>The two halves agree on the POST line\<close>

lemma post_prefix_full:
  assumes "fits_long ts"
  shows "post_prefix ts = (if ts > 0 then ''POST '' @ show_int ts @ '' '' else ''POST '')"
  using show_int_length_long[OF assms] by (simp add: post_prefix_def snprintf_def)

lemma post_fields_sealed:
  assumes "fits_long ts" and "sealed b"
  shows "post_fields now (drop 5 (post_prefix ts @ b)) = (if ts > 0 then ts else now, b)"
proof (cases "ts > 0")
  case True
  have "strchr (show_int ts @ CHR '' '' # b) (CHR '' '') = Some (length (show_int ts))"
    using show_int_no_space by (rule strchr_append)
  moreover have "atol (show_int ts @ CHR '' '' # b) = ts"
    using assms(1) by (intro atol_show_int) auto
  ultimately show ?thesis
    using True post_prefix_full[OF assms(1)] by (simp add: post_fields_def)
next
  case False
  have "strchr b (CHR '' '') = None"
    using assms(2) by (intro strchr_None) (simp add: sealed_def)
  then show ?thesis
    using False post_prefix_full[OF assms(1)] by (simp add: post_fields_def)
qed

text \<open>
  Round trip of the POST line: for every 64-bit timestamp and every base64 payload, the prefix
  the client writes followed by the payload is read by the server as exactly that payload, with
  the client's timestamp when it is positive and with the server's clock otherwise. The \<open>prefix\<close>
  buffer of the client never cuts it.
\<close>

theorem post_line_roundtrip:
  assumes "fits_long ts" and "sealed b"
  shows "starts_with ''POST '' (post_prefix ts @ b) \<and>
    post_fields now (drop 5 (post_prefix ts @ b)) = (if ts > 0 then ts else now, b)"
  using post_fields_sealed[OF assms] post_prefix_full[OF assms(1)] by auto

theorem post_line_roundtrip_witness:
  "post_fields 7 (drop 5 (post_prefix (2 ^ 63 - 1) @ ''QUJD'')) = (2 ^ 63 - 1, ''QUJD'')"
  using post_line_roundtrip[of "2 ^ 63 - 1" "''QUJD''" 7]
  by (simp add: fits_long_def sealed_def)

subsection \<open>The client over the server\<close>

definition wire_user :: "'d wire \<Rightarrow> string" where
  "wire_user w = se_user (pe_session (wi_peer w))"

definition wire_db :: "'d wire \<Rightarrow> 'd" where
  "wire_db w = pe_db (wi_peer w)"

definition wire_now :: "'d wire \<Rightarrow> int" where
  "wire_now w = pe_clock (wi_peer w) (pe_ticks (wi_peer w))"

text \<open>
  A connection in the command loop with no unread reply, over well formed tables with room for more
  ids, whose user's rows hold sealed payloads.
\<close>

definition connected :: "('d \<Rightarrow> tables) \<Rightarrow> 'd wire \<Rightarrow> bool" where
  "connected tables w \<longleftrightarrow> wi_inbox w = [] \<and> se_phase (pe_session (wi_peer w)) = Serving \<and>
     roomy (tables (wire_db w)) \<and> (\<forall>r \<in> set (owned (wire_user w) (tables (wire_db w))). sealed (row_data r))"

lemma roomy_good_row:
  "roomy t \<Longrightarrow> r \<in> set (owned u t) \<Longrightarrow> sealed (row_data r) \<Longrightarrow> good_row r"
  using roomy_row[of t r] by (auto simp: good_row_def owned_def)

context sealed_server
begin

lemma answer_exact:
  assumes "se_phase (pe_session p) = Serving" and "roomy (tables (pe_db p))" and "l \<noteq> ''QUIT''"
    and "server_answer lib sq l p = (out, p')"
    and "c = parse_command (pe_clock p (pe_ticks p)) l"
  shows "out = spec_reply (se_user (pe_session p)) c (tables (pe_db p)) \<and>
    tables (pe_db p') = apply_op (spec_op (se_user (pe_session p)) c (tables (pe_db p))) (tables (pe_db p)) \<and>
    pe_session p' = pe_session p"
proof -
  obtain d' where h: "handle_command sq (se_user (pe_session p)) (peer_request l p) (pe_db p) = (out, d')"
    and p': "p' = p\<lparr>pe_db := d', pe_session := pe_session p, pe_ticks := Suc (pe_ticks p)\<rparr>"
    using assms(1,3,4)
    by (auto simp: server_answer_def session_line_def peer_request_def split: prod.splits)
  have "request_ok (peer_request l p)" by (simp add: request_ok_def peer_request_def)
  from handle_command_exact[OF assms(2) this h] p' show ?thesis
    by (simp add: assms(5) peer_request_def)
qed

lemma get_exact:
  assumes "connected tables w" and "length (owned (wire_user w) (tables (wire_db w))) \<le> MAX_ENTRIES"
  shows "\<exists>w'. net_get_entries (wire_proto lib sq enc dec) w =
      (Some (qsort entry_cmp_newest_first (map (entry_of dec) (owned (wire_user w) (tables (wire_db w))))), w')"
proof -
  let ?rs = "owned (wire_user w) (tables (wire_db w))"
  obtain out p' where a: "server_answer lib sq ''GET'' (wi_peer w) = (out, p')" by force
  have "out = (''ENTRIES '' @ show_int (int (length ?rs))) # map row_line ?rs"
    using answer_exact[OF _ _ _ a refl] assms
    by (simp add: connected_def wire_user_def wire_db_def listing_def)
  moreover have "\<forall>r \<in> set ?rs. good_row r"
    using assms(1) roomy_good_row by (auto simp: connected_def)
  moreover have "length ?rs < 2 ^ 31" using assms(2) by (simp add: MAX_ENTRIES_def)
  ultimately show ?thesis
    using link.get_by_answer[of w ?rs p'] a assms(1) by (auto simp: connected_def wire_proto_def)
qed

lemma post_exact:
  assumes "connected tables w" and "t_seq (tables (wire_db w)) < 2 ^ 31 - 2" and "fits_long ts"
    and "i = t_seq (tables (wire_db w)) + 1"
  shows "\<exists>b w'. sealed b \<and> dec b = Some (c_str text) \<and>
    net_post_entry (wire_proto lib sq enc dec) text ts w = (i, w') \<and> connected tables w' \<and>
    wire_user w' = wire_user w \<and>
    tables (wire_db w') = tb_add i (wire_user w) (if ts > 0 then ts else c_long (wire_now w)) b
      (tables (wire_db w))"
proof -
  let ?P = "wire_proto lib sq enc dec"
  let ?t = "tables (wire_db w)"
  have w: "wi_inbox w = []" "se_phase (pe_session (wi_peer w)) = Serving" "roomy (tables (pe_db (wi_peer w)))"
    using assms(1) by (simp_all add: connected_def wire_db_def)
  obtain b where b: "sealed b" "dec b = Some (c_str text)"
    and ans: "\<forall>i p'. server_answer lib sq (post_prefix ts @ b) (wi_peer w) =
        ([''OK '' @ show_int i], p') \<longrightarrow> fits_int i \<longrightarrow>
      (\<exists>w'. net_post_entry ?P text ts w = (i, w') \<and> wi_inbox w' = [] \<and> wi_peer w' = p')"
    using link.post_by_answer[OF w(1) assms(3), of "text"] by (auto simp: wire_proto_def)
  obtain out p' where a: "server_answer lib sq (post_prefix ts @ b) (wi_peer w) = (out, p')" by force
  obtain rest where line: "post_prefix ts @ b = ''POST '' @ rest"
    using post_prefix_full[OF assms(3)] by (cases "ts > 0") simp_all
  define stamp where "stamp = (if ts > 0 then ts else c_long (wire_now w))"
  have "post_fields (wire_now w) rest = (if ts > 0 then ts else wire_now w, b)"
    using post_fields_sealed[OF assms(3) b(1), of "wire_now w"] line by simp
  then have c: "parse_command (wire_now w) (post_prefix ts @ b) = Post stamp b"
    using assms(3) unfolding line by (simp add: stamp_def)
  note e = answer_exact[OF w(2,3) _ a, of "Post stamp b"]
  have out: "out = [''OK '' @ show_int i]"
    and t': "tables (pe_db p') = tb_add i (wire_user w) stamp b ?t"
    and se: "pe_session p' = pe_session (wi_peer w)"
    using e c assms(4) line by (simp_all add: wire_now_def wire_user_def wire_db_def)
  have fit: "fits_int i" using assms(2,4) w(3) by (auto simp: fits_int_def roomy_def tables_inv_def wire_db_def)
  obtain w' where w': "net_post_entry ?P text ts w = (i, w')" "wi_inbox w' = []" "wi_peer w' = p'"
    using ans a out fit by blast
  have "op_allowed (Add i (wire_user w) stamp b) ?t"
    using fits_int_long[OF fit] assms(3,4) by (simp add: stamp_def)
  then have "roomy (tables (pe_db p'))"
    using apply_op_inv[of "Add i (wire_user w) stamp b" ?t] w(3) assms(2,4) t'
    by (simp add: roomy_def tb_add_def wire_db_def)
  moreover have "\<forall>r \<in> set (owned (wire_user w) (tables (pe_db p'))). sealed (row_data r)"
    using assms(1) b(1) t' by (auto simp: connected_def owned_def tb_add_def)
  ultimately have "connected tables w'" "wire_user w' = wire_user w"
    using w' se w(2) by (simp_all add: connected_def wire_user_def wire_db_def)
  then show ?thesis
    using b w' t' by (auto simp: wire_db_def stamp_def)
qed

lemma update_answered:
  assumes "connected tables w" and "fits_int i"
  shows "\<exists>b w'. sealed b \<and> dec b = Some (c_str text) \<and>
    net_update_entry (wire_proto lib sq enc dec) i text w =
      (if \<exists>r \<in> set (t_entries (tables (wire_db w))). hits i (wire_user w) r then i else -1, w') \<and>
    connected tables w' \<and> wire_user w' = wire_user w \<and>
    tables (wire_db w') = tb_update i (wire_user w) b (tables (wire_db w))"
proof -
  let ?P = "wire_proto lib sq enc dec"
  let ?t = "tables (wire_db w)"
  have w: "wi_inbox w = []" "se_phase (pe_session (wi_peer w)) = Serving" "roomy (tables (pe_db (wi_peer w)))"
    using assms(1) by (simp_all add: connected_def wire_db_def)
  obtain b where b: "sealed b" "dec b = Some (c_str text)"
    and ans: "\<forall>l p'. server_answer lib sq (''UPDATE '' @ show_int i @ '' '' @ b) (wi_peer w) = ([l], p') \<longrightarrow>
      length l < 64 \<longrightarrow>
      (\<exists>w'. net_update_entry ?P i text w = (if l = ''OK'' then i else -1, w') \<and> wi_inbox w' = [] \<and>
        wi_peer w' = p')"
    using link.update_by_answer[OF w(1) assms(2), of "text"] by (auto simp: wire_proto_def)
  obtain out p' where a: "server_answer lib sq (''UPDATE '' @ show_int i @ '' '' @ b) (wi_peer w) = (out, p')"
    by force
  have "strchr (show_int i @ CHR '' '' # b) (CHR '' '') = Some (length (show_int i))"
    using show_int_no_space by (rule strchr_append)
  then have c: "parse_command now (''UPDATE '' @ show_int i @ '' '' @ b) = Change i b" for now
    using atoi_show_int_end[OF assms(2)] by simp
  note e = answer_exact[OF w(2,3) _ a, of "Change i b"]
  have out: "out = found_reply i (wire_user w) ?t"
    and t': "tables (pe_db p') = tb_update i (wire_user w) b ?t"
    and se: "pe_session p' = pe_session (wi_peer w)"
    using e c by (simp_all add: wire_user_def wire_db_def)
  define l where "l = hd (found_reply i (wire_user w) ?t)"
  have l: "out = [l]" "length l < 64"
    "(l = ''OK'') = (\<exists>r \<in> set (t_entries ?t). hits i (wire_user w) r)"
    using out by (simp_all add: found_reply_def l_def)
  obtain w' where w': "net_update_entry ?P i text w = (if l = ''OK'' then i else -1, w')"
    "wi_inbox w' = []" "wi_peer w' = p'"
    using ans a l by blast
  have "roomy (tables (pe_db p'))"
    using apply_op_inv[of "Update i (wire_user w) b" ?t] w(3) t'
    by (simp add: roomy_def tb_update_def wire_db_def)
  moreover have "\<forall>r \<in> set (owned (wire_user w) (tables (pe_db p'))). sealed (row_data r)"
    using assms(1) b(1) t' by (auto simp: connected_def owned_def tb_update_def)
  ultimately have "connected tables w'" "wire_user w' = wire_user w"
    using w' se w(2) by (simp_all add: connected_def wire_user_def wire_db_def)
  then show ?thesis
    using b w' t' l(3) by (auto simp: wire_db_def)
qed

lemma update_exact:
  assumes "connected tables w" and "fits_int i"
    and "r \<in> set (t_entries (tables (wire_db w)))" and "hits i (wire_user w) r"
  shows "\<exists>b w'. sealed b \<and> dec b = Some (c_str text) \<and>
    net_update_entry (wire_proto lib sq enc dec) i text w = (i, w') \<and> connected tables w' \<and>
    wire_user w' = wire_user w \<and>
    tables (wire_db w') = tb_update i (wire_user w) b (tables (wire_db w))"
  using update_answered[OF assms(1,2), of "text"] assms(3,4) by (auto split: if_splits)

lemma delete_exact:
  assumes "connected tables w" and "fits_int i"
  shows "\<exists>w'. net_delete_entry (wire_proto lib sq enc dec) i w =
      (if \<exists>r \<in> set (t_entries (tables (wire_db w))). hits i (wire_user w) r then 0 else -1, w') \<and>
    connected tables w' \<and> wire_user w' = wire_user w \<and>
    tables (wire_db w') = tb_delete i (wire_user w) (tables (wire_db w))"
proof -
  let ?P = "wire_proto lib sq enc dec"
  let ?t = "tables (wire_db w)"
  have w: "wi_inbox w = []" "se_phase (pe_session (wi_peer w)) = Serving" "roomy (tables (pe_db (wi_peer w)))"
    using assms(1) by (simp_all add: connected_def wire_db_def)
  obtain out p' where a: "server_answer lib sq (''DELETE '' @ show_int i) (wi_peer w) = (out, p')"
    by force
  have c: "parse_command now (''DELETE '' @ show_int i) = Remove i" for now
    using atoi_show_int_end[OF assms(2)] by simp
  note e = answer_exact[OF w(2,3) _ a, of "Remove i"]
  have out: "out = found_reply i (wire_user w) ?t"
    and t': "tables (pe_db p') = tb_delete i (wire_user w) ?t"
    and se: "pe_session p' = pe_session (wi_peer w)"
    using e c by (simp_all add: wire_user_def wire_db_def)
  define l where "l = hd (found_reply i (wire_user w) ?t)"
  have l: "out = [l]" "length l < 64"
    "(l = ''OK'') = (\<exists>r \<in> set (t_entries ?t). hits i (wire_user w) r)"
    using out by (simp_all add: found_reply_def l_def)
  obtain w' where w': "net_delete_entry ?P i w = (if l = ''OK'' then 0 else -1, w')"
    "wi_inbox w' = []" "wi_peer w' = p'"
    using link.delete_by_answer[OF w(1) assms(2), of l p'] a l by auto
  have "roomy (tables (pe_db p'))"
    using apply_op_inv[of "Delete i (wire_user w)" ?t] w(3) t'
    by (simp add: roomy_def tb_delete_def wire_db_def)
  moreover have "\<forall>r \<in> set (owned (wire_user w) (tables (pe_db p'))). sealed (row_data r)"
    using assms(1) t' by (auto simp: connected_def owned_def tb_delete_def)
  ultimately have "connected tables w'" "wire_user w' = wire_user w"
    using w' se w(2) by (simp_all add: connected_def wire_user_def wire_db_def)
  then show ?thesis
    using w' t' l(3) by (auto simp: wire_db_def)
qed

end

subsection \<open>Concrete values for the witnesses\<close>

text \<open>A toy encoding in place of the sealed boxes: two letters per byte after a marker.\<close>

definition demo_enc :: "nat \<Rightarrow> string \<Rightarrow> string" where
  "demo_enc k t = CHR ''s'' # concat (map (\<lambda>c. [char_of (65 + (of_char c :: nat) div 16),
     char_of (65 + (of_char c :: nat) mod 16)]) t)"

fun demo_pairs :: "string \<Rightarrow> string" where
  "demo_pairs (a # b # s) =
     char_of ((of_char a - 65) * 16 + (of_char b - 65) :: nat) # demo_pairs s"
| "demo_pairs _ = []"

definition demo_dec :: "string \<Rightarrow> bytes option" where
  "demo_dec b = (case b of c # s \<Rightarrow> if c = CHR ''s'' then Some (demo_pairs s) else None | [] \<Rightarrow> None)"

lemma of_char_lt: "(of_char c :: nat) < 256"
  using of_char_eq_iff[of c] by (metis char_of_mod_256 mod_less_divisor of_char_mod_256 zero_less_numeral)

lemma of_char_div_lt: "(of_char c :: nat) div 16 < 16"
  using of_char_lt[of c] by (intro less_mult_imp_div_less) simp

lemma demo_pairs_enc:
  "demo_pairs (concat (map (\<lambda>c. [char_of (65 + (of_char c :: nat) div 16),
     char_of (65 + (of_char c :: nat) mod 16)]) t)) = t"
proof (induction t)
  case (Cons c t)
  then show ?case using of_char_div_lt[of c] by simp
qed simp

lemma demo_letter: "n < 16 \<Longrightarrow> (of_char d :: nat) < 65 \<Longrightarrow> char_of (65 + n :: nat) \<noteq> d"
  using of_char_eq_iff by (auto dest!: arg_cong[where f = "of_char :: char \<Rightarrow> nat"])

lemma demo_enc_chars: "c \<in> set (demo_enc k t) \<Longrightarrow> c = CHR ''s'' \<or> (\<exists>n < 16. c = char_of (65 + n :: nat))"
proof -
  have "\<exists>n < 16. d = char_of (65 + n :: nat)"
    if "d = char_of (65 + (of_char a :: nat) div 16) \<or> d = char_of (65 + (of_char a :: nat) mod 16)"
    for a d
    using that of_char_div_lt[of a] by (metis mod_less_divisor zero_less_numeral)
  then show "c \<in> set (demo_enc k t) \<Longrightarrow> ?thesis" by (auto simp: demo_enc_def)
qed

lemma demo_enc_avoids: "of_char c < (65 :: nat) \<Longrightarrow> c \<notin> set (demo_enc k t)"
proof
  assume small: "of_char c < (65 :: nat)" and "c \<in> set (demo_enc k t)"
  then consider "c = CHR ''s''" | n where "n < 16" "c = char_of (65 + n :: nat)"
    using demo_enc_chars by blast
  then show False
  proof cases
    case 1
    then show False using small by simp
  next
    case 2
    then show False using demo_letter[of n c] small by simp
  qed
qed

lemma demo_enc_ok: "sealed (demo_enc k t) \<and> demo_dec (demo_enc k t) = Some t"
proof -
  have "CHR '' '' \<notin> set (demo_enc k t)" "CHR 0x0A \<notin> set (demo_enc k t)"
    by (rule demo_enc_avoids, simp)+
  then show ?thesis
    by (simp add: sealed_def demo_dec_def demo_pairs_enc) (simp add: demo_enc_def demo_pairs_enc)
qed

interpretation demo: sealed_server "ref_sqlite False" rd_tables demo_lib demo_enc demo_dec
  by unfold_locales (auto simp: demo_lib_def demo_enc_ok)

subsection \<open>What the user of the client sees\<close>

lemma connected_plain:
  assumes "connected tables w"
  shows "\<forall>e \<in> set (map (entry_of dec) (owned (wire_user w) (tables (wire_db w)))). plain_id e"
proof -
  have "plain_id (entry_of dec r)" if "r \<in> set (owned (wire_user w) (tables (wire_db w)))" for r
    using assms that roomy_good_row[of "tables (wire_db w)" r "wire_user w"]
    by (auto simp: connected_def plain_id_def entry_of_def good_row_def)
  then show ?thesis by auto
qed

text \<open>A GET of at most \<open>MAX_ENTRIES\<close> rows: the rows, opened and sorted.\<close>

lemma get_listing:
  assumes "sealed_server sq tables lib enc dec" and "connected tables w"
    and "length (owned (wire_user w) (tables (wire_db w))) \<le> MAX_ENTRIES"
  obtains es w' where "net_get_entries (wire_proto lib sq enc dec) w = (Some es, w')"
    and "mset es = mset (map (entry_of dec) (owned (wire_user w) (tables (wire_db w))))"
    and "sorted_wrt newer_first es"
  using sealed_server.get_exact[OF assms] newest_first_sorted[OF connected_plain[OF assms(2), of dec]]
  by fastforce

text \<open>
  C7. What is posted is what is read back: on a connection in the command loop, a POST returns the next
  id, and a GET after it lists, newest first, exactly the entries from before and one more, with that
  id, the posted text up to its first NUL, and the chosen date (the server's clock when none was chosen).
\<close>

theorem post_then_get:
  assumes "sealed_server sq tables lib enc dec" and "connected tables w"
    and "t_seq (tables (wire_db w)) < 2 ^ 31 - 2" and "fits_long ts"
    and "length (owned (wire_user w) (tables (wire_db w))) < MAX_ENTRIES"
    and "net_post_entry (wire_proto lib sq enc dec) text ts w = (i, w1)"
  shows "\<exists>es w2. net_get_entries (wire_proto lib sq enc dec) w1 = (Some es, w2) \<and>
    i = t_seq (tables (wire_db w)) + 1 \<and> sorted_wrt newer_first es \<and>
    mset es = add_mset
      \<lparr>de_id = i, de_timestamp = (if ts > 0 then ts else c_long (wire_now w)), de_text = Some (c_str text)\<rparr>
      (mset (map (entry_of dec) (owned (wire_user w) (tables (wire_db w)))))"
proof -
  define stamp where "stamp = (if ts > 0 then ts else c_long (wire_now w))"
  obtain b where b: "dec b = Some (c_str text)" and c: "connected tables w1"
    and i: "i = t_seq (tables (wire_db w)) + 1" and u: "wire_user w1 = wire_user w"
    and t: "tables (wire_db w1) = tb_add i (wire_user w) stamp b (tables (wire_db w))"
    using sealed_server.post_exact[OF assms(1-4) refl, of "text"] assms(6)
    by (auto simp: stamp_def)
  have o: "owned (wire_user w1) (tables (wire_db w1)) = owned (wire_user w) (tables (wire_db w)) @
      [\<lparr>row_id = i, row_owner = wire_user w, row_ts = stamp, row_data = b\<rparr>]"
    by (simp add: owned_def t u tb_add_def)
  have "length (owned (wire_user w1) (tables (wire_db w1))) \<le> MAX_ENTRIES"
    using assms(5) by (simp add: o)
  then obtain es w2 where "net_get_entries (wire_proto lib sq enc dec) w1 = (Some es, w2)"
    "mset es = mset (map (entry_of dec) (owned (wire_user w1) (tables (wire_db w1))))"
    "sorted_wrt newer_first es"
    by (rule get_listing[OF assms(1) c])
  then show ?thesis using b i o by (simp add: entry_of_def stamp_def)
qed

text \<open>
  An UPDATE of an entry of the user returns its id, and a GET after it lists the same entries, with
  the new text in that one: ids, dates and the other texts stay.
\<close>

theorem update_then_get:
  assumes "sealed_server sq tables lib enc dec" and "connected tables w" and "fits_int i"
    and "\<exists>r \<in> set (owned (wire_user w) (tables (wire_db w))). row_id r = i"
    and "length (owned (wire_user w) (tables (wire_db w))) \<le> MAX_ENTRIES"
    and "net_update_entry (wire_proto lib sq enc dec) i text w = (rc, w1)"
  shows "\<exists>es w2. net_get_entries (wire_proto lib sq enc dec) w1 = (Some es, w2) \<and> rc = i \<and>
    sorted_wrt newer_first es \<and>
    mset es = mset (map (\<lambda>r. if row_id r = i
        then \<lparr>de_id = i, de_timestamp = row_ts r, de_text = Some (c_str text)\<rparr> else entry_of dec r)
      (owned (wire_user w) (tables (wire_db w))))"
proof -
  obtain r where r: "r \<in> set (t_entries (tables (wire_db w)))" "hits i (wire_user w) r"
    using assms(4) by (auto simp: owned_def hits_def)
  obtain b where b: "dec b = Some (c_str text)" and c: "connected tables w1"
    and rc: "rc = i" and u: "wire_user w1 = wire_user w"
    and t: "tables (wire_db w1) = tb_update i (wire_user w) b (tables (wire_db w))"
    using sealed_server.update_exact[OF assms(1-3) r, of "text"] assms(6) by auto
  have o: "owned (wire_user w1) (tables (wire_db w1)) =
      map (\<lambda>r. if row_id r = i then r\<lparr>row_data := b\<rparr> else r) (owned (wire_user w) (tables (wire_db w)))"
    by (auto simp: owned_def t u tb_update_def filter_map o_def hits_def
        intro!: map_cong filter_cong)
  have "length (owned (wire_user w1) (tables (wire_db w1))) \<le> MAX_ENTRIES"
    using assms(5) by (simp add: o)
  then obtain es w2 where g: "net_get_entries (wire_proto lib sq enc dec) w1 = (Some es, w2)"
    and m: "mset es = mset (map (entry_of dec) (owned (wire_user w1) (tables (wire_db w1))))"
    and s: "sorted_wrt newer_first es"
    by (rule get_listing[OF assms(1) c])
  have "map (entry_of dec) (owned (wire_user w1) (tables (wire_db w1))) =
      map (\<lambda>r. if row_id r = i
        then \<lparr>de_id = i, de_timestamp = row_ts r, de_text = Some (c_str text)\<rparr> else entry_of dec r)
      (owned (wire_user w) (tables (wire_db w)))"
    by (simp add: o entry_of_def b)
  then show ?thesis using g m s rc by metis
qed

text \<open>
  A DELETE returns 0 exactly when the user has an entry with that id, and a GET after it lists the
  other entries, unchanged.
\<close>

theorem delete_then_get:
  assumes "sealed_server sq tables lib enc dec" and "connected tables w" and "fits_int i"
    and "length (owned (wire_user w) (tables (wire_db w))) \<le> MAX_ENTRIES"
    and "net_delete_entry (wire_proto lib sq enc dec) i w = (rc, w1)"
  shows "\<exists>es w2. net_get_entries (wire_proto lib sq enc dec) w1 = (Some es, w2) \<and>
    (rc = 0 \<longleftrightarrow> (\<exists>r \<in> set (owned (wire_user w) (tables (wire_db w))). row_id r = i)) \<and>
    sorted_wrt newer_first es \<and>
    mset es = mset (map (entry_of dec)
      (filter (\<lambda>r. row_id r \<noteq> i) (owned (wire_user w) (tables (wire_db w)))))"
proof -
  have c: "connected tables w1" and u: "wire_user w1 = wire_user w"
    and rc: "rc = (if \<exists>r \<in> set (t_entries (tables (wire_db w))). hits i (wire_user w) r then 0 else -1)"
    and t: "tables (wire_db w1) = tb_delete i (wire_user w) (tables (wire_db w))"
    using sealed_server.delete_exact[OF assms(1-3)] assms(5) by auto
  have o: "owned (wire_user w1) (tables (wire_db w1)) =
      filter (\<lambda>r. row_id r \<noteq> i) (owned (wire_user w) (tables (wire_db w)))"
    by (auto simp: owned_def t u tb_delete_def hits_def intro!: filter_cong)
  have "length (owned (wire_user w1) (tables (wire_db w1))) \<le> MAX_ENTRIES"
    using assms(4) by (metis o length_filter_le le_trans)
  then obtain es w2 where "net_get_entries (wire_proto lib sq enc dec) w1 = (Some es, w2)"
    "mset es = mset (map (entry_of dec) (owned (wire_user w1) (tables (wire_db w1))))"
    "sorted_wrt newer_first es"
    using get_listing[OF assms(1) c] by metis
  moreover have "rc = 0 \<longleftrightarrow> (\<exists>r \<in> set (owned (wire_user w) (tables (wire_db w))). row_id r = i)"
    using rc by (auto simp: owned_def hits_def)
  ultimately show ?thesis using o by (intro exI[of _ es] exI[of _ w2]) simp
qed

definition demo_wire :: "ref_db wire" where
  "demo_wire = \<lparr>wi_peer = \<lparr>pe_db = demo_db,
       pe_session = \<lparr>se_user = ''a1'', se_phase = Serving, se_db = True\<rparr>,
       pe_clock = (\<lambda>k. 500 + int k), pe_ticks = 0\<rparr>,
     wi_inbox = [], wi_seeds = 0\<rparr>"

abbreviation demo_proto :: "ref_db wire proto" where
  "demo_proto \<equiv> wire_proto demo_lib (ref_sqlite False) demo_enc demo_dec"

lemma demo_wire_simps [simp]:
  "wire_user demo_wire = ''a1''" "wire_db demo_wire = demo_db" "wire_now demo_wire = 500"
  "owned ''a1'' (rd_tables demo_db) =
     [\<lparr>row_id = 1, row_owner = ''a1'', row_ts = 100, row_data = ''WA==''\<rparr>]"
  "t_seq (rd_tables demo_db) = 2"
  by (simp_all add: demo_wire_def wire_user_def wire_db_def wire_now_def owned_def demo_defs)

lemma demo_connected: "connected rd_tables demo_wire"
  using demo_roomy by (simp add: connected_def sealed_def) (simp add: demo_wire_def)

theorem post_then_get_witness:
  "\<exists>es w2. net_get_entries demo_proto (snd (net_post_entry demo_proto ''hi'' 300 demo_wire)) =
      (Some es, w2) \<and> fst (net_post_entry demo_proto ''hi'' 300 demo_wire) = 3 \<and>
    mset es = {#\<lparr>de_id = 3, de_timestamp = 300, de_text = Some ''hi''\<rparr>,
      \<lparr>de_id = 1, de_timestamp = 100, de_text = Some ''[could not decrypt]''\<rparr>#}"
proof -
  obtain i w1 where p: "net_post_entry demo_proto ''hi'' 300 demo_wire = (i, w1)" by force
  show ?thesis
    using post_then_get[OF demo.sealed_server_axioms demo_connected _ _ _ p]
    by (auto simp: p fits_long_def MAX_ENTRIES_def entry_of_def demo_dec_def c_str_def)
qed

theorem update_then_get_witness:
  "\<exists>es w2. net_get_entries demo_proto (snd (net_update_entry demo_proto 1 ''hi'' demo_wire)) =
      (Some es, w2) \<and> es = [\<lparr>de_id = 1, de_timestamp = 100, de_text = Some ''hi''\<rparr>]"
proof -
  obtain i w1 where p: "net_update_entry demo_proto 1 ''hi'' demo_wire = (i, w1)" by force
  show ?thesis
    using update_then_get[OF demo.sealed_server_axioms demo_connected _ _ _ p]
    by (auto simp: p fits_int_def MAX_ENTRIES_def c_str_def)
qed

theorem delete_then_get_witness:
  "fst (net_delete_entry demo_proto 2 demo_wire) \<noteq> 0 \<and>
   (\<exists>es w2. net_get_entries demo_proto (snd (net_delete_entry demo_proto 2 demo_wire)) = (Some es, w2) \<and>
     length es = 1)"
proof -
  obtain i w1 where p: "net_delete_entry demo_proto 2 demo_wire = (i, w1)" by force
  show ?thesis
    using delete_then_get[OF demo.sealed_server_axioms demo_connected _ _ p]
    by (auto simp: p fits_int_def MAX_ENTRIES_def)
qed

context sealed_server
begin

lemma get_empty_row_exact:
  assumes "wi_inbox w = []"
    and "se_phase (pe_session (wi_peer w)) = Serving" and "roomy (tables (wire_db w))"
    and "owned (wire_user w) (tables (wire_db w)) = rs @ r # qs" and "length (rs @ r # qs) \<le> MAX_ENTRIES"
    and "row_data r = []" and "\<forall>q \<in> set rs. sealed (row_data q)"
  shows "\<exists>w'. net_get_entries (wire_proto lib sq enc dec) w = (None, w') \<and>
    wi_inbox w' = map row_line qs"
proof -
  obtain rows where rows: "rows = rs @ r # qs" by simp
  obtain out p' where a: "server_answer lib sq ''GET'' (wi_peer w) = (out, p')" by force
  have "out = (''ENTRIES '' @ show_int (int (length rows))) # map row_line rows"
    using answer_exact[OF assms(2) _ _ a refl] assms(3-5)
    by (simp add: wire_user_def wire_db_def listing_def flip: rows)
  moreover have "\<forall>q \<in> set rs. good_row q"
    using roomy_good_row[OF assms(3), of _ "wire_user w"] assms(4,7) by simp
  moreover have "length rows < 2 ^ 31" using assms(5) by (simp add: rows MAX_ENTRIES_def)
  ultimately show ?thesis
    using link.get_empty_row[OF assms(1) _ rows _ assms(6)] a by simp
qed

end

text \<open>
  C30. A row with no data hides the whole list: when one of the user's rows has an empty payload (the
  server stores one for the bare line \<open>POST \<close>), a GET returns an error instead of the entries, and the
  replies for the rows after it stay unread on the connection, to be taken for the answer to the next
  command.
\<close>

theorem empty_row_hides_list:
  assumes "sealed_server sq tables lib enc dec" and "wi_inbox w = []"
    and "se_phase (pe_session (wi_peer w)) = Serving" and "roomy (tables (wire_db w))"
    and "owned (wire_user w) (tables (wire_db w)) = rs @ r # qs" and "length (rs @ r # qs) \<le> MAX_ENTRIES"
    and "row_data r = []" and "\<forall>q \<in> set rs. sealed (row_data q)"
  shows "\<exists>w'. net_get_entries (wire_proto lib sq enc dec) w = (None, w') \<and>
    wi_inbox w' = map row_line qs"
  using assms by (rule sealed_server.get_empty_row_exact)

definition empty_wire :: "ref_db wire" where
  "empty_wire = demo_wire\<lparr>wi_peer := (wi_peer demo_wire)\<lparr>pe_db :=
     \<lparr>rd_tables = tb_add 5 ''a1'' 9 ''WA=='' (tb_add 4 ''a1'' 9 [] demo_tables), rd_fail = []\<rparr>\<rparr>\<rparr>"

theorem empty_row_hides_list_witness:
  "fst (net_get_entries demo_proto empty_wire) = None"
proof -
  have "\<exists>w'. net_get_entries demo_proto empty_wire = (None, w') \<and>
      wi_inbox w' = map row_line [\<lparr>row_id = 5, row_owner = ''a1'', row_ts = 9, row_data = ''WA==''\<rparr>]"
    by (rule empty_row_hides_list[OF demo.sealed_server_axioms, where
          rs = "[\<lparr>row_id = 1, row_owner = ''a1'', row_ts = 100, row_data = ''WA==''\<rparr>]" and
          r = "\<lparr>row_id = 4, row_owner = ''a1'', row_ts = 9, row_data = []\<rparr>"])
       (simp_all add: empty_wire_def demo_wire_def wire_user_def wire_db_def owned_def demo_defs
          tb_add_def roomy_def tables_inv_def fits_long_def MAX_ENTRIES_def sealed_def)
  then show ?thesis by force
qed


end
