(* ===== verification/EditorClaims.thy ===== *)
theory EditorClaims
  imports EditorSteps TextClaims EndToEnd
begin

text \<open>
  The first properties of the editor: memory safety, whole sessions, and its keys as editing of a list
  of characters.
\<close>

subsection \<open>Concrete values for the witnesses\<close>

definition demo_tm :: struct_tm where
  "demo_tm = \<lparr>tm_year = 126, tm_mon = 0, tm_mday = 2, tm_hour = 3, tm_min = 4\<rparr>"

lemma strftime_demo [simp]: "strftime_minutes 32 demo_tm = Some ''2026-01-02 03:04''"
  by (simp add: strftime_minutes_def demo_tm_def two_digits_def show_int_def show_nat.simps Let_def)

definition demo_env :: "ref_db wire ui_env" where
  "demo_env = \<lparr>ue_proto = demo_proto,
     ue_localtime = (\<lambda>t. if t < 2 ^ 55 then Some demo_tm else None), ue_entry_at = 0\<rparr>"

definition demo_input :: "key \<Rightarrow> ui_input" where
  "demo_input k = \<lparr>in_rows = 24, in_cols = 80, in_key = k, in_now = 500, in_calloc = True,
     in_realloc = Some (\<lambda>_. CHR ''?''), in_fopen = True, in_fwrite = 65536, in_remove = True\<rparr>"

lemma demo_dated: "t < 2 ^ 55 \<Longrightarrow> format_ts demo_env t = Some ''2026-01-02 03:04''"
  by (simp add: demo_env_def format_ts_def)

definition demo_world :: "ref_db wire world" where
  "demo_world = \<lparr>wo_net = demo_wire, wo_disk = Map.empty,
     wo_frame = \<lparr>fr_header = [], fr_cells = [], fr_bar = [], fr_marked = None, fr_cursor = (0, 0)\<rparr>, wo_ixon = True\<rparr>"

definition demo_editor :: editor where
  "demo_editor = \<lparr>ed_buf = ''a'' @ [CHR 0xC3, CHR 0xA9] @ ''b'' @ [CHR 0x00, CHR ''x''], ed_size = 6, ed_len = 4,
     ed_cursor = 3, ed_top = 0, ed_dirty = 1, ed_id = 0, ed_stamp = 100, ed_status = []\<rparr>"

lemma demo_editor_simps [simp]:
  "ed_len demo_editor = 4" "ed_cursor demo_editor = 3" "ed_dirty demo_editor = 1" "ed_id demo_editor = 0"
  "ed_stamp demo_editor = 100" "ed_text demo_editor = ''a'' @ [CHR 0xC3, CHR 0xA9] @ ''b''"
  "format_ts demo_env 100 = Some ''2026-01-02 03:04''"
  by (simp_all add: demo_editor_def demo_env_def format_ts_def ed_text_def)

lemma demo_editor_inv [simp]: "editor_inv demo_editor"
  by (simp add: editor_inv_def) (simp add: demo_editor_def)

lemma demo_input_simps [simp]:
  "in_key (demo_input k) = k" "in_realloc (demo_input k) = Some (\<lambda>_. CHR ''?'')" "in_calloc (demo_input k)"
  "in_rows (demo_input k) = 24" "in_cols (demo_input k) = 80" "in_fopen (demo_input k)"
  "in_fwrite (demo_input k) = 65536"
  by (simp_all add: demo_input_def)

lemma editor_step_esc:
  assumes "format_ts env (ed_stamp (fst s)) = Some ts" and "in_key inp = Byte (CHR 0x1B)"
  shows "editor_step env inp s = (if ed_dirty (fst s) \<noteq> 0
    then Next ((fst (drawn inp ts s))\<lparr>ed_status := esc_status, ed_dirty := -1\<rparr>, snd (drawn inp ts s))
    else Leave (drawn inp ts s))"
  using editor_key_esc[of env inp "fst (drawn inp ts s)" "snd (drawn inp ts s)"] assms
  by (simp add: editor_step_drawn turn_key_def)

subsection \<open>Memory\<close>

text \<open>
  C8. Memory safety of the editor: from a state that satisfies the invariant (the text with one byte for
  its NUL lies inside the block, the cursor inside the text) a turn is undefined behaviour in two cases
  only: \<open>localtime\<close> has no date for the entry's timestamp, or the key is a function key that no branch
  takes in this state (then \<open>isprint\<close> is called outside its domain). Every other turn keeps the invariant.
\<close>

theorem editor_memory_safe:
  assumes "editor_inv (fst s)"
  shows "(editor_step env inp s = Undefined \<longleftrightarrow>
      format_ts env (ed_stamp (fst s)) = None \<or> unhandled (in_key inp) (fst s)) \<and>
    (\<forall>s'. editor_step env inp s = Next s' \<longrightarrow> editor_inv (fst s'))"
proof (cases "format_ts env (ed_stamp (fst s))")
  case None
  then show ?thesis by (cases s) (simp add: editor_step_def Let_def)
next
  case (Some ts)
  show ?thesis
    using editor_turn[OF assms Some, of inp] Some by (auto simp: keeps_def split: outcome.splits)
qed

theorem editor_memory_safe_witness:
  "editor_step demo_env (demo_input Other_Key) (demo_editor, demo_world) = Undefined \<and>
   editor_step demo_env (demo_input KEY_DC) (demo_editor, demo_world) \<noteq> Undefined"
  using editor_memory_safe[of "(demo_editor, demo_world)" demo_env "demo_input Other_Key"]
    editor_memory_safe[of "(demo_editor, demo_world)" demo_env "demo_input KEY_DC"]
  by simp

text \<open>
  A whole editor session, for any sequence of inputs: wherever the loop stands or is left, the
  invariant holds, the date is the one it was opened with, and an entry that was opened for editing is
  still the entry that is edited.
\<close>

theorem editor_session_invariant:
  assumes "editor_open inp i x t = Next st" and "in_calloc inp"
    and "editor_loop env inps (st, w) = (r, rest)" and "r = Next s' \<or> r = Leave s'"
  shows "editor_inv (fst s') \<and> ed_stamp (fst s') = t \<and> (0 < i \<longrightarrow> ed_id (fst s') = i)"
proof -
  have st: "editor_inv st \<and> ed_id st = i \<and> ed_stamp st = t"
    using editor_opened[OF assms(1,2)] by simp
  have "keeps (st, w) s'" using editor_loop_keeps[OF _ assms(3,4)] st by simp
  then show ?thesis using st by (simp add: keeps_def)
qed

theorem editor_session_invariant_witness:
  "\<exists>st s' rest. editor_open (demo_input KEY_ENTER) 7 (Some ''ab'') 100 = Next st \<and>
    editor_loop demo_env [demo_input (Byte (CHR ''x'')), demo_input (Byte (CHR 0x1B))] (st, demo_world) =
      (Next s', rest) \<and> ed_id (fst s') = 7"
proof -
  obtain st where st: "editor_open (demo_input KEY_ENTER) 7 (Some ''ab'') 100 = Next st" "editor_inv st"
    "ed_stamp st = 100"
    by (rule editor_open_text[of "demo_input KEY_ENTER" _ 7 "''ab''" 100]) auto
  have r: "editor_ready demo_env (st, demo_world)" using st by (simp add: editor_ready_def)
  have "input_types (demo_input (Byte (CHR ''x''))) = Some (CHR ''x'')"
    by (simp add: input_types_def typed_byte_def)
  then obtain s1 where s1: "editor_step demo_env (demo_input (Byte (CHR ''x''))) (st, demo_world) = Next s1"
    "editor_ready demo_env s1" "ed_dirty (fst s1) = 1"
    using editor_types_next[OF r] by blast
  then obtain ts where ts: "format_ts demo_env (ed_stamp (fst s1)) = Some ts"
    by (auto simp: editor_ready_def)
  have "\<exists>s'. editor_step demo_env (demo_input (Byte (CHR 0x1B))) s1 = Next s'"
    using s1(3) editor_step_esc[OF ts, of "demo_input (Byte (CHR 0x1B))"] by simp
  then obtain s' where "editor_loop demo_env [demo_input (Byte (CHR ''x'')), demo_input (Byte (CHR 0x1B))]
      (st, demo_world) = (Next s', [])"
    using s1(1) by (auto simp: editor_loop_def)
  moreover from editor_session_invariant[OF st(1) _ this] have "ed_id (fst s') = 7" by simp
  ultimately show ?thesis using st(1) by blast
qed

subsection \<open>Editing\<close>

text \<open>
  C11. Typing: whatever the state of the buffer, its growth and the window, a run of keys that type the
  bytes \<open>cs\<close> (the allocator permitting) leaves the text with \<open>cs\<close> inserted at the cursor, the cursor
  behind it, and nothing sent or written to disk.
\<close>

theorem typing_inserts_text:
  assumes "editor_ready env s" and "list_all2 (\<lambda>inp c. input_types inp = Some c) inps cs"
  shows "\<exists>s'. editor_loop env inps s = (Next s', []) \<and>
    ed_text (fst s') = take (ed_cursor (fst s)) (ed_text (fst s)) @ cs @ drop (ed_cursor (fst s)) (ed_text (fst s)) \<and>
    ed_cursor (fst s') = ed_cursor (fst s) + length cs \<and>
    wo_net (snd s') = wo_net (snd s) \<and> wo_disk (snd s') = wo_disk (snd s)"
  using editor.typed_all[OF assms] by (auto simp: editor_loop_def content_def put_text_def editor_others_def)

theorem typing_inserts_text_witness:
  "\<exists>s'. editor_loop demo_env (map (\<lambda>c. demo_input (Byte c)) ''hello'') (demo_editor, demo_world) = (Next s', []) \<and>
    ed_text (fst s') = ''a'' @ [CHR 0xC3, CHR 0xA9] @ ''hello'' @ ''b''"
proof -
  have r: "editor_ready demo_env (demo_editor, demo_world)" by (simp add: editor_ready_def)
  have t: "list_all2 (\<lambda>inp c. input_types inp = Some c) (map (\<lambda>c. demo_input (Byte c)) ''hello'') ''hello''"
    by (simp add: input_types_def typed_byte_def)
  obtain s' where "editor_loop demo_env (map (\<lambda>c. demo_input (Byte c)) ''hello'') (demo_editor, demo_world) =
      (Next s', [])"
    "ed_text (fst s') = take 3 (ed_text demo_editor) @ ''hello'' @ drop 3 (ed_text demo_editor)"
    using typing_inserts_text[OF r t] by (simp only: fst_conv demo_editor_simps) blast
  then show ?thesis by (intro exI[of _ s']) simp
qed

text \<open>One whole character: a byte that is no continuation byte and the continuation bytes after it.\<close>

definition one_char :: "bytes \<Rightarrow> bool" where
  "one_char ch \<longleftrightarrow> ch \<noteq> [] \<and> \<not> u8_is_cont (hd ch) \<and> (\<forall>c \<in> set (tl ch). u8_is_cont c)"

lemma text_nth: "editor_inv st \<Longrightarrow> k < ed_len st \<Longrightarrow> ed_buf st ! k = ed_text st ! k"
  by (simp add: ed_text_def)

lemma one_char_nth:
  assumes "one_char ch" and "i < length ch"
  shows "u8_is_cont (ch ! i) \<longleftrightarrow> 0 < i"
  using assms by (cases ch; cases i) (auto simp: one_char_def)

lemma char_start_char:
  assumes "editor_inv st" and "ed_text st = a @ ch @ b" and "one_char ch"
  shows "char_start (ed_buf st) (length a + length ch - 1) = length a"
proof -
  let ?k = "length a + length ch - 1"
  let ?j = "char_start (ed_buf st) ?k"
  have len: "ed_len st = length a + length ch + length b" using length_ed_text[OF assms(1)] assms(2) by simp
  have ch: "0 < length ch" using assms(3) by (simp add: one_char_def)
  have at: "u8_is_cont (ed_buf st ! (length a + i)) \<longleftrightarrow> 0 < i" if "i < length ch" for i
    using text_nth[OF assms(1), of "length a + i"] one_char_nth[OF assms(3) that] len that assms(2)
    by (simp add: nth_append)
  have "length a \<le> ?k" using ch by linarith
  then have "\<not> ?j < length a"
    using char_start_cont[of "ed_buf st" ?k "length a"] at[of 0] ch by auto
  moreover have "\<not> length a < ?j"
  proof
    assume "length a < ?j"
    then have "u8_is_cont (ed_buf st ! ?j)"
      using at[of "?j - length a"] char_start_le[of "ed_buf st" ?k] ch by simp
    then show False using char_start_lead[of "ed_buf st" ?k] \<open>length a < ?j\<close> by simp
  qed
  ultimately show ?thesis by simp
qed

lemma u8_char_len_char:
  assumes "editor_inv st" and "ed_text st = a @ ch @ b" and "one_char ch"
    and "b \<noteq> [] \<longrightarrow> \<not> u8_is_cont (hd b)"
  shows "u8_char_len (ed_buf st) (ed_len st) (length a) = length ch"
proof -
  let ?n = "u8_char_len (ed_buf st) (ed_len st) (length a)"
  have len: "ed_len st = length a + length ch + length b" using length_ed_text[OF assms(1)] assms(2) by simp
  have ch: "0 < length ch" using assms(3) by (simp add: one_char_def)
  have at: "u8_is_cont (ed_buf st ! (length a + i)) \<longleftrightarrow> 0 < i" if "i < length ch" for i
    using text_nth[OF assms(1), of "length a + i"] one_char_nth[OF assms(3) that] len that assms(2)
    by (simp add: nth_append)
  have after: "\<not> u8_is_cont (ed_buf st ! (length a + length ch))" if "b \<noteq> []"
    using text_nth[OF assms(1), of "length a + length ch"] len that assms(2,4)
    by (simp add: nth_append hd_conv_nth)
  have "\<not> length ch < ?n"
    using u8_char_len_cont[of "length ch" "ed_buf st" "ed_len st" "length a"] ch len after by auto
  moreover have "\<not> ?n < length ch"
    using u8_char_len_end[of "length a" "ed_buf st" "ed_len st"] at[of ?n] len by auto
  ultimately show ?thesis by simp
qed

text \<open>
  Backspace removes exactly the character before the cursor, all of its bytes, and moves the cursor
  to where it began.
\<close>

theorem backspace_removes_char:
  assumes "editor_ready env s" and "rubs (in_key inp)"
    and "ed_text (fst s) = a @ ch @ b" and "one_char ch" and "ed_cursor (fst s) = length a + length ch"
  shows "\<exists>s'. editor_step env inp s = Next s' \<and> ed_text (fst s') = a @ b \<and> ed_cursor (fst s') = length a"
proof -
  obtain ts where ts: "format_ts env (ed_stamp (fst s)) = Some ts" and inv: "editor_inv (fst s)"
    using assms(1) by (auto simp: editor_ready_def)
  let ?d = "fst (drawn inp ts s)"
  have d: "editor_inv ?d" using inv by simp
  obtain st' where st': "editor_backspace ?d = Some st'"
    "content st' = (let k = ed_cursor ?d; j = (if k = 0 then 0 else char_start (ed_buf ?d) (k - 1)) in
           (take j (ed_text ?d) @ drop k (ed_text ?d), j))"
    using editor_backspace_ok[OF d] by blast
  have "0 < length ch" using assms(4) by (simp add: one_char_def)
  then have "content st' = (a @ b, length a)"
    using st'(2) assms(3,5) char_start_char[OF inv assms(3,4)] by (simp add: Let_def)
  moreover have "in_key inp \<noteq> ERR" using assms(2) by (cases "in_key inp") auto
  then have "editor_step env inp s = Next (st', snd (drawn inp ts s))"
    using st'(1) editor_key_rubs[OF assms(2), of env inp ?d "snd (drawn inp ts s)"]
    by (simp add: editor_step_drawn[OF ts] turn_key_def as_turn_def)
  ultimately show ?thesis by (simp add: content_def)
qed

theorem backspace_removes_char_witness:
  "\<exists>s'. editor_step demo_env (demo_input (Byte (CHR 0x7F))) (demo_editor, demo_world) = Next s' \<and>
    ed_text (fst s') = ''ab'' \<and> ed_cursor (fst s') = 1"
  using backspace_removes_char[of demo_env "(demo_editor, demo_world)" "demo_input (Byte (CHR 0x7F))"
      "''a''" "[CHR 0xC3, CHR 0xA9]" "''b''"]
  by (simp add: editor_ready_def one_char_def u8_is_cont_def)

text \<open>
  Delete removes exactly the character at the cursor, all of its bytes, and the cursor stays.
\<close>

theorem delete_removes_char:
  assumes "editor_ready env s" and "in_key inp = KEY_DC"
    and "ed_text (fst s) = a @ ch @ b" and "one_char ch" and "b \<noteq> [] \<longrightarrow> \<not> u8_is_cont (hd b)"
    and "ed_cursor (fst s) = length a"
  shows "\<exists>s'. editor_step env inp s = Next s' \<and> ed_text (fst s') = a @ b \<and> ed_cursor (fst s') = length a"
proof -
  obtain ts where ts: "format_ts env (ed_stamp (fst s)) = Some ts" and inv: "editor_inv (fst s)"
    using assms(1) by (auto simp: editor_ready_def)
  let ?d = "fst (drawn inp ts s)"
  have d: "editor_inv ?d" using inv by simp
  obtain st' where st': "editor_delete ?d = Some st'"
    "content st' = (let k = ed_cursor ?d;
         n = (if k < ed_len ?d then u8_char_len (ed_buf ?d) (ed_len ?d) k else 0) in
       (take k (ed_text ?d) @ drop (k + n) (ed_text ?d), k))"
    using editor_delete_ok[OF d] by blast
  have "ed_len (fst s) = length a + length ch + length b" "0 < length ch"
    using length_ed_text[OF inv] assms(3,4) by (simp_all add: one_char_def)
  then have "content st' = (a @ b, length a)"
    using st'(2) assms(3,6) u8_char_len_char[OF inv assms(3,4,5)] by (simp add: Let_def)
  moreover have "editor_step env inp s = Next (st', snd (drawn inp ts s))"
    using st'(1) assms(2) editor_key_other(8)[of env inp ?d "snd (drawn inp ts s)"]
    by (simp add: editor_step_drawn[OF ts] turn_key_def as_turn_def)
  ultimately show ?thesis by (simp add: content_def)
qed

theorem delete_removes_char_witness:
  "\<exists>s'. editor_step demo_env (demo_input KEY_DC) (demo_editor\<lparr>ed_cursor := 1\<rparr>, demo_world) = Next s' \<and>
    ed_text (fst s') = ''ab'' \<and> ed_cursor (fst s') = 1"
proof -
  have "editor_ready demo_env (demo_editor\<lparr>ed_cursor := 1\<rparr>, demo_world)"
    using editor_inv_cursor[of demo_editor 1] by (simp add: editor_ready_def)
  moreover have "ed_text (demo_editor\<lparr>ed_cursor := 1\<rparr>) = ''a'' @ [CHR 0xC3, CHR 0xA9] @ ''b''"
    by (simp add: demo_editor_def ed_text_def)
  ultimately show ?thesis
    using delete_removes_char[of demo_env "(demo_editor\<lparr>ed_cursor := 1\<rparr>, demo_world)" "demo_input KEY_DC"
        "''a''" "[CHR 0xC3, CHR 0xA9]" "''b''"]
    by (simp add: one_char_def u8_is_cont_def)
qed

end
