(* ===== verification/EditorSaving.thy ===== *)
theory EditorSaving
  imports EditorClaims
begin

text \<open>
  More properties of the editor: the cursor on the screen and on character boundaries, what is sent to
  the server and written to disk, when it is left, and the way of a typed text into the database.
\<close>

subsection \<open>The cursor\<close>

text \<open>
  C34. The cursor is always on the screen: once the view is scrolled for a turn, in a window of at least
  three rows, the cursor is put on a row of the text area and on a column of the window (columns below 2
  in narrower windows).
\<close>

theorem cursor_visible:
  assumes "3 \<le> in_rows inp"
  shows "(case fr_cursor (editor_frame inp (editor_scroll inp st) ts) of (r, c) \<Rightarrow>
    1 \<le> r \<and> r \<le> in_rows inp - 2 \<and> 0 \<le> c \<and> c \<le> max 1 (in_cols inp - 1))"
proof -
  have v: "editor_vpos inp (editor_scroll inp st) = editor_vpos inp st" by (simp add: editor_vpos_def)
  obtain r c where rc: "editor_vpos inp st = (r, c)" by force
  then have "0 \<le> r \<and> 0 \<le> c \<and> c \<le> max 1 (in_cols inp - 1)"
    using pos_row_nonneg[of "ed_buf st" "in_cols inp" "min (ed_cursor st) (ed_len st)"]
      pos_col_bounds[of "ed_buf st" "in_cols inp" "min (ed_cursor st) (ed_len st)"]
    by (simp add: editor_vpos_def get_vpos_pos)
  then show ?thesis
    using assms by (simp add: editor_frame_def v rc) (simp add: editor_scroll_def rc Let_def)
qed

theorem cursor_visible_witness:
  "1 \<le> fst (fr_cursor (editor_frame (demo_input ERR) (editor_scroll (demo_input ERR) (demo_editor\<lparr>ed_top := 40\<rparr>)) []))"
  using cursor_visible[of "demo_input ERR" "demo_editor\<lparr>ed_top := 40\<rparr>" "[]"]
  by (auto split: prod.splits)

text \<open>The cursor is where a character starts, and the text does not start inside one.\<close>

definition on_char :: "editor \<Rightarrow> bool" where
  "on_char st \<longleftrightarrow> (ed_cursor st < ed_len st \<longrightarrow> \<not> u8_is_cont (ed_text st ! ed_cursor st)) \<and>
     (ed_text st \<noteq> [] \<longrightarrow> \<not> u8_is_cont (ed_text st ! 0))"

lemma on_char_content:
  assumes "editor_inv st" and "editor_inv st'" and "content st' = content st" and "on_char st"
  shows "on_char st'"
  using assms length_ed_text[OF assms(1)] length_ed_text[OF assms(2)]
  by (simp add: on_char_def content_def)

lemma on_char_goto:
  assumes "editor_inv st" and "on_char st" and "boundary (ed_buf st) (ed_len st) k"
  shows "on_char (st\<lparr>ed_cursor := k\<rparr>)"
  using assms text_nth[OF assms(1), of k]
  by (auto simp: on_char_def boundary_def ed_text_cong[of "st\<lparr>ed_cursor := k\<rparr>" st])

lemma on_char_cut:
  assumes "editor_inv st" and "on_char st" and "editor_inv st'"
    and "content st' = (take j (ed_text st) @ drop k (ed_text st), j)" and "j \<le> k" and "k \<le> ed_len st"
    and "k < ed_len st \<longrightarrow> \<not> u8_is_cont (ed_text st ! k)"
  shows "on_char st'"
proof -
  have t: "ed_text st' = take j (ed_text st) @ drop k (ed_text st)" "ed_cursor st' = j"
    using assms(4) by (simp_all add: content_def)
  note len = length_ed_text[OF assms(1)]
  have "ed_len st' = j + (ed_len st - k)"
    using length_ed_text[OF assms(3)] t(1) len assms(5,6) by simp
  then show ?thesis
    using assms(2,5,6,7) t len by (cases "j = 0") (auto simp: on_char_def nth_append)
qed

lemma on_char_ins:
  assumes "editor_inv st" and "on_char st" and "editor_inv st'" and "content st' = ins c (content st)"
    and "ed_cursor st = 0 \<longrightarrow> \<not> u8_is_cont c"
  shows "on_char st'"
proof -
  let ?k = "ed_cursor st"
  have t: "ed_text st' = take ?k (ed_text st) @ c # drop ?k (ed_text st)" "ed_cursor st' = ?k + 1"
    using assms(4) by (simp_all add: content_def ins_def)
  note len = length_ed_text[OF assms(1)]
  have k: "?k \<le> ed_len st" using assms(1) by (simp add: editor_inv_def)
  have "ed_len st' = ed_len st + 1" using length_ed_text[OF assms(3)] t(1) len k by simp
  then show ?thesis
    using assms(2,5) t len k by (cases "?k = 0") (auto simp: on_char_def nth_append)
qed

text \<open>The keys that move the cursor or delete at it.\<close>

lemma delete_on_char:
  assumes "editor_inv st" and "on_char st" and "editor_delete st = Some st'"
  shows "on_char st'"
proof -
  have inv: "ed_cursor st \<le> ed_len st" using assms(1) by (simp add: editor_inv_def)
  let ?n = "if ed_cursor st < ed_len st then u8_char_len (ed_buf st) (ed_len st) (ed_cursor st) else 0"
  obtain st'' where st'': "editor_delete st = Some st''" "editor_inv st''"
    "content st'' = (let k = ed_cursor st;
       n = (if k < ed_len st then u8_char_len (ed_buf st) (ed_len st) k else 0) in
     (take k (ed_text st) @ drop (k + n) (ed_text st), k))"
    using editor_delete_ok[OF assms(1)] by blast
  have n: "ed_cursor st + ?n \<le> ed_len st" using inv u8_char_len_bound by auto
  have "ed_cursor st + ?n < ed_len st \<longrightarrow> \<not> u8_is_cont (ed_text st ! (ed_cursor st + ?n))"
    using u8_char_len_end[of "ed_cursor st" "ed_buf st" "ed_len st"]
      text_nth[OF assms(1), of "ed_cursor st + ?n"] by auto
  then show ?thesis
    using st''(1,3) assms(3) by (intro on_char_cut[OF assms(1,2) _ _ _ n]) (use st''(2) in \<open>auto simp: Let_def\<close>)
qed

lemma right_on_char:
  assumes "editor_inv st" and "on_char st" and "ed_cursor st < ed_len st"
  shows "on_char (st\<lparr>ed_cursor := ed_cursor st + u8_char_len (ed_buf st) (ed_len st) (ed_cursor st)\<rparr>)"
  using on_char_goto[OF assms(1,2)] u8_char_len_bound[OF assms(3)]
    u8_char_len_end[of "ed_cursor st" "ed_buf st" "ed_len st"]
  by (simp add: boundary_def)

lemma left_on_char:
  assumes "editor_inv st" and "on_char st" and "0 < ed_cursor st"
  shows "on_char (st\<lparr>ed_cursor := char_start (ed_buf st) (ed_cursor st - 1)\<rparr>)"
proof -
  let ?j = "char_start (ed_buf st) (ed_cursor st - 1)"
  have inv: "ed_cursor st \<le> ed_len st" using assms(1) by (simp add: editor_inv_def)
  have jl: "?j < ed_len st" using char_start_le[of "ed_buf st" "ed_cursor st - 1"] assms(3) inv by linarith
  have "\<not> u8_is_cont (ed_buf st ! ?j)"
    using char_start_lead[of "ed_buf st" "ed_cursor st - 1"] assms(2) text_nth[OF assms(1), of 0] jl
      length_ed_text[OF assms(1)]
    by (auto simp: on_char_def)
  then have "boundary (ed_buf st) (ed_len st) ?j" using jl by (simp add: boundary_def)
  then show ?thesis by (rule on_char_goto[OF assms(1,2)])
qed

lemma motion_on_char:
  assumes "editor_inv st" and "on_char st" and "\<not> saves ch" and "editor_key env inp ch (st, w) = Next s'"
    and "key_char ch = None" and "\<not> rubs ch" and "\<forall>c. ch \<noteq> Byte c"
  shows "on_char (fst s')"
proof (cases ch)
  case KEY_DC
  then show ?thesis
    using assms(4) delete_on_char[OF assms(1,2)] by (auto simp: editor_key_other as_turn_def split: option.splits)
next
  case (KEY_F n)
  then show ?thesis using assms(3,4) by (simp add: editor_key_other)
next
  case KEY_RIGHT
  then show ?thesis
    using assms(4) right_on_char[OF assms(1,2)] by (auto simp: editor_key_other split: if_splits)
next
  case KEY_LEFT
  then show ?thesis
    using assms(4) left_on_char[OF assms(1,2)] by (auto simp: editor_key_other split: if_splits)
next
  case (KEY_MOUSE ev)
  then show ?thesis
    using assms(2,4) by (auto simp: editor_key_other on_char_def ed_text_def)
qed (use assms(2,4-7) on_char_goto[OF assms(1,2)] in
     \<open>auto simp: editor_key_other goto_vpos_def split: if_splits\<close>)

lemma key_on_char:
  assumes "editor_inv st" and "on_char st" and "\<not> saves ch" and "editor_key env inp ch (st, w) = Next s'"
    and "\<And>c. ed_cursor st = 0 \<Longrightarrow> key_char ch = Some c \<Longrightarrow> \<not> u8_is_cont c"
  shows "on_char (fst s')"
proof -
  have inv: "ed_cursor st \<le> ed_len st" using assms(1) by (simp add: editor_inv_def)
  show ?thesis
  proof (cases ch rule: tested_key)
    case (types c)
    obtain st2 where s': "s' = (st2, w)" "editor_type inp c st = Next st2"
      using assms(4) editor_key_types[OF types, of env inp st w] by (cases "editor_type inp c st") auto
    then have "editor_inv st2 \<and> content st2 = ins c (content st)"
      using editor_type_cases[OF assms(1) key_char_nul[OF types], of inp] by auto
    then show ?thesis using on_char_ins[OF assms(1,2)] assms(5)[OF _ types] s' by simp
  next
    case rubs
    obtain st' where st': "editor_backspace st = Some st'" "editor_inv st'"
      "content st' = (let k = ed_cursor st; j = (if k = 0 then 0 else char_start (ed_buf st) (k - 1)) in
         (take j (ed_text st) @ drop k (ed_text st), j))"
      using editor_backspace_ok[OF assms(1)] by blast
    have j: "(if ed_cursor st = 0 then 0 else char_start (ed_buf st) (ed_cursor st - 1)) \<le> ed_cursor st"
      using char_start_le[of "ed_buf st" "ed_cursor st - 1"] by auto
    have "on_char st'"
      using assms(2) st'(3)
      by (intro on_char_cut[OF assms(1,2) st'(2) _ j inv]) (auto simp: Let_def on_char_def)
    then show ?thesis
      using assms(4) st'(1) by (auto simp: editor_key_rubs[OF rubs] as_turn_def)
  next
    case escape
    then show ?thesis
      using assms(2,4) by (auto simp: editor_key_esc on_char_def ed_text_def split: if_splits)
  next
    case (ignored c)
    then show ?thesis using assms(2,3,4) by (auto simp: editor_key_ignored)
  next
    case motion
    then show ?thesis by (rule motion_on_char[OF assms(1-4)])
  qed
qed

text \<open>
  The cursor never stands inside a UTF-8 character: a turn that goes on keeps it at the start of a
  character or at the end, unless a stray continuation byte is typed at the very beginning.
\<close>

theorem cursor_on_character:
  assumes "editor_inv (fst s)" and "on_char (fst s)" and "editor_step env inp s = Next s'"
    and "\<And>c. ed_cursor (fst s) = 0 \<Longrightarrow> key_char (in_key inp) = Some c \<Longrightarrow> \<not> u8_is_cont c"
  shows "on_char (fst s')"
proof -
  obtain ts where ts: "format_ts env (ed_stamp (fst s)) = Some ts"
    using assms(3) editor_step_dated by blast
  have d: "editor_inv (fst (drawn inp ts s))" using assms(1) by simp
  have od: "on_char (fst (drawn inp ts s))" using assms(2) by (simp add: on_char_def)
  show ?thesis
  proof (cases "in_key inp = ERR \<and> ed_dirty (fst s) = 0")
    case True
    then show ?thesis using assms(3) od by (auto simp: editor_step_drawn[OF ts])
  next
    case False
    then have k: "editor_key env inp (turn_key inp) (fst (drawn inp ts s), snd (drawn inp ts s)) = Next s'"
      using assms(3) by (auto simp: editor_step_drawn[OF ts])
    show ?thesis
    proof (cases "saves (turn_key inp)")
      case True
      obtain s2 where "editor_save env inp (fst (drawn inp ts s), snd (drawn inp ts s)) = Next s2"
        "keeps (fst (drawn inp ts s), snd (drawn inp ts s)) s2"
        "content (fst s2) = content (fst (drawn inp ts s))"
        using save_keeps[OF d] by blast
      then show ?thesis
        using k on_char_content[OF d _ _ od] by (simp add: editor_key_saves[OF True] keeps_def)
    next
      case False
      then have "turn_key inp = in_key inp" by (auto simp: turn_key_def split: if_splits)
      then show ?thesis using key_on_char[OF d od False k] assms(4) by simp
    qed
  qed
qed

theorem cursor_on_character_witness:
  "\<exists>s'. editor_step demo_env (demo_input KEY_LEFT) (demo_editor, demo_world) = Next s' \<and> on_char (fst s')"
proof -
  have o: "on_char demo_editor" by (simp add: on_char_def u8_is_cont_def)
  let ?ts = "''2026-01-02 03:04''" and ?s = "(demo_editor, demo_world)" and ?i = "demo_input KEY_LEFT"
  have ts: "format_ts demo_env (ed_stamp (fst ?s)) = Some ?ts" by simp
  obtain s' where s': "editor_step demo_env ?i ?s = Next s'"
    using editor_key_other(5)[of demo_env ?i "fst (drawn ?i ?ts ?s)" "snd (drawn ?i ?ts ?s)"]
    by (simp add: editor_step_drawn[OF ts] turn_key_def)
  have "on_char (fst s')" by (rule cursor_on_character[OF _ _ s']) (simp_all add: o)
  then show ?thesis using s' by blast
qed

subsection \<open>Saving\<close>

lemma save_done_drawn:
  "save_done env inp (fst (drawn inp ts s)) (snd (drawn inp ts s)) st w = save_done env inp (fst s) (snd s) st w"
  unfolding save_done_def save_call_def drawn_simps by (rule refl)

text \<open>A turn that saves: Ctrl+S, F2, Ctrl+W, or a timeout with the changed mark on.\<close>

lemma save_turn:
  assumes "editor_ready env s" and "saves (turn_key inp)" and "in_key inp = ERR \<longrightarrow> ed_dirty (fst s) \<noteq> 0"
    and "\<not> (ed_dirty (fst s) = 0 \<and> ed_id (fst s) > 0)"
  obtains s' where "editor_step env inp s = Next s'" and "save_done env inp (fst s) (snd s) (fst s') (snd s')"
    and "keeps s s'" and "ed_text (fst s') = ed_text (fst s)"
proof -
  obtain ts where ts: "format_ts env (ed_stamp (fst s)) = Some ts" and inv: "editor_inv (fst s)"
    using assms(1) by (auto simp: editor_ready_def)
  have d: "editor_inv (fst (drawn inp ts s))" using inv by simp
  obtain s' where s': "editor_save env inp (fst (drawn inp ts s), snd (drawn inp ts s)) = Next s'"
    "keeps (fst (drawn inp ts s), snd (drawn inp ts s)) s'" "content (fst s') = content (fst (drawn inp ts s))"
    "save_done env inp (fst (drawn inp ts s)) (snd (drawn inp ts s)) (fst s') (snd s')"
    using save_keeps[OF d] assms(4) by (metis drawn_simps(4,5))
  have "editor_step env inp s = Next s'"
    using s'(1) assms(2,3) by (auto simp: editor_step_drawn[OF ts] editor_key_saves)
  then show thesis
    using that s'(2-4) drawn_trans(1)[of inp ts s s'] by (simp add: save_done_drawn content_def)
qed

lemma saves_turn_key: "saves ch \<Longrightarrow> in_key inp = ch \<Longrightarrow> saves (turn_key inp) \<and> in_key inp \<noteq> ERR"
  by (auto simp: turn_key_def)

text \<open>
  A turn calls the server only to save, and then with exactly the text on the screen. An entry that has an
  id is only ever updated under that id; a new entry is posted, and the id of a successful POST becomes its
  id.
\<close>

lemma turn_calls:
  assumes "editor_inv (fst s)" and "editor_step env inp s = Next s'"
  shows "if 0 < ed_id (fst s)
    then ed_id (fst s') = ed_id (fst s) \<and> (wo_net (snd s') = wo_net (snd s) \<or>
      (\<exists>rc. net_update_entry (ue_proto env) (ed_id (fst s)) (ed_text (fst s)) (wo_net (snd s)) =
        (rc, wo_net (snd s'))))
    else (ed_id (fst s') = ed_id (fst s) \<and> wo_net (snd s') = wo_net (snd s)) \<or>
      (\<exists>i. net_post_entry (ue_proto env) (ed_text (fst s)) (ue_entry_at env) (wo_net (snd s)) =
        (i, wo_net (snd s')) \<and> ed_id (fst s') = (if i > 0 then i else ed_id (fst s)))"
proof -
  obtain ts where ts: "format_ts env (ed_stamp (fst s)) = Some ts"
    using assms editor_step_dated by blast
  from editor_turn[OF assms(1) ts, of inp] assms(2)
  consider "quiet s s'" | "save_done env inp (fst s) (snd (drawn inp ts s)) (fst s') (snd s')" by auto
  then show ?thesis
  proof cases
    case 1
    then show ?thesis by (simp add: quiet_def)
  next
    case 2
    then show ?thesis by (auto simp: save_done_def save_call_def Let_def split: prod.splits if_splits)
  qed
qed

lemma demo_env_world: "ue_proto demo_env = demo_proto" "ue_entry_at demo_env = 0" "wo_net demo_world = demo_wire"
  by (simp_all add: demo_env_def demo_world_def)

text \<open>
  C39. A POST whose reply does not come, or is not \<open>OK\<close> with an id, leaves a new entry without an id and with
  its changed mark, whatever the server did with the text: the next save, by key or at a timeout, posts
  the same text again over the connection the first one left.
\<close>

theorem unanswered_post_is_repeated:
  assumes "editor_ready env s" and "ed_id (fst s) \<le> 0" and "ed_dirty (fst s) \<noteq> 0"
    and "saves (turn_key inp)" and "saves (turn_key inp2)"
    and "net_post_entry (ue_proto env) (ed_text (fst s)) (ue_entry_at env) (wo_net (snd s)) = (i, net)" and "i \<le> 0"
  shows "\<exists>s1 s2 j. editor_step env inp s = Next s1 \<and> wo_net (snd s1) = net \<and> ed_dirty (fst s1) \<noteq> 0 \<and>
    editor_step env inp2 s1 = Next s2 \<and>
    net_post_entry (ue_proto env) (ed_text (fst s)) (ue_entry_at env) net = (j, wo_net (snd s2))"
proof -
  have c: "in_key inp = ERR \<longrightarrow> ed_dirty (fst s) \<noteq> 0" "\<not> (ed_dirty (fst s) = 0 \<and> ed_id (fst s) > 0)"
    using assms(2,3) by simp_all
  obtain s1 where s1: "editor_step env inp s = Next s1" "save_done env inp (fst s) (snd s) (fst s1) (snd s1)"
    "keeps s s1" "ed_text (fst s1) = ed_text (fst s)"
    by (rule save_turn[OF assms(1,4) c])
  then have n1: "wo_net (snd s1) = net" "ed_id (fst s1) = ed_id (fst s)" "ed_dirty (fst s1) = ed_dirty (fst s)"
    using assms(2,6,7) by (auto simp: save_done_def save_call_def)
  have "editor_ready env s1" using s1(3) assms(1) by (simp add: editor_ready_def keeps_def)
  moreover have "in_key inp2 = ERR \<longrightarrow> ed_dirty (fst s1) \<noteq> 0" "\<not> (ed_dirty (fst s1) = 0 \<and> ed_id (fst s1) > 0)"
    using n1 assms(3) by simp_all
  ultimately obtain s2 where
    s2: "editor_step env inp2 s1 = Next s2" "save_done env inp2 (fst s1) (snd s1) (fst s2) (snd s2)"
    "keeps s1 s2" "ed_text (fst s2) = ed_text (fst s1)"
    using assms(5) by (elim save_turn)
  obtain j net2 where j: "net_post_entry (ue_proto env) (ed_text (fst s)) (ue_entry_at env) net = (j, net2)" by force
  then have "wo_net (snd s2) = net2" using s2(2) n1 s1(4) assms(2) by (auto simp: save_done_def save_call_def Let_def)
  then show ?thesis using s1(1) s2(1) n1 j assms(3) by metis
qed

text \<open>A connection that stores each line it is given and then has nothing to read.\<close>

definition mute_proto :: "string list proto" where
  "mute_proto = \<lparr>pr_seal = (\<lambda>t w. (Some t, w)), pr_unseal = Some, pr_send_line = (\<lambda>l w. (0, w @ [l])),
     pr_send_prefixed = (\<lambda>p l w. (0, w @ [p @ l])), pr_recv_line = (\<lambda>_ w. (None, w)),
     pr_recv_line_dyn = (\<lambda>w. (None, w)), pr_alloc = (\<lambda>_ _. True)\<rparr>"

definition mute_env :: "string list ui_env" where
  "mute_env = \<lparr>ue_proto = mute_proto, ue_localtime = (\<lambda>_. Some demo_tm), ue_entry_at = 0\<rparr>"

theorem unanswered_post_is_repeated_witness:
  "\<exists>s1 s2. editor_step mute_env (demo_input (KEY_F 2)) (demo_editor,
      \<lparr>wo_net = [], wo_disk = Map.empty, wo_frame = wo_frame demo_world, wo_ixon = False\<rparr>) = Next s1 \<and>
    editor_step mute_env (demo_input ERR) s1 = Next s2 \<and>
    wo_net (snd s2) = replicate 2 (''POST '' @ ed_text demo_editor)"
proof -
  let ?s = "(demo_editor, \<lparr>wo_net = [], wo_disk = Map.empty, wo_frame = wo_frame demo_world, wo_ixon = False\<rparr>)"
  have r: "editor_ready mute_env ?s" by (simp add: editor_ready_def mute_env_def format_ts_def)
  have c: "c_str (ed_text demo_editor) = ed_text demo_editor"
    using demo_editor_inv unfolding editor_inv_def by (blast intro: c_str_id)
  have "net_post_entry (ue_proto mute_env) t (ue_entry_at mute_env) w = (-1, w @ [''POST '' @ t])"
    if "c_str t = t" for t w
    by (simp add: net_post_entry_def mute_env_def mute_proto_def post_prefix_def that)
  note post = this[OF c]
  show ?thesis
    using unanswered_post_is_repeated[OF r, of "demo_input (KEY_F 2)" "demo_input ERR" "-1"
        "[''POST '' @ ed_text demo_editor]"]
    by (auto simp: post turn_key_def numeral_2_eq_2 simp del: demo_editor_simps(6))
qed

text \<open>
  C17. No text is lost at a timeout. When \<open>wgetch\<close> times out and nothing has changed, nothing is sent and
  nothing written. Otherwise the server is called with exactly the text on the screen, an update under the
  id of the entry or a POST for a new one. If its reply is positive the changed mark goes off, a new entry
  takes the id of the reply, and the backup file goes away if it can be removed. If it is not, the mark and
  the id stay, and when the disk takes what is written the backup file of the entry holds exactly the text.
  The text on the screen stays in every case.
\<close>

theorem timeout_protects_text:
  assumes "editor_ready env s" and "in_key inp = ERR" and "in_fopen inp"
    and "ed_len (fst s) \<le> in_fwrite inp"
  shows "\<exists>s'. editor_step env inp s = Next s' \<and> ed_text (fst s') = ed_text (fst s) \<and>
    (if ed_dirty (fst s) = 0
     then wo_net (snd s') = wo_net (snd s) \<and> wo_disk (snd s') = wo_disk (snd s) \<and> ed_dirty (fst s') = 0 \<and>
       ed_id (fst s') = ed_id (fst s)
     else \<exists>i. (if ed_id (fst s) > 0
           then net_update_entry (ue_proto env) (ed_id (fst s)) (ed_text (fst s)) (wo_net (snd s))
           else net_post_entry (ue_proto env) (ed_text (fst s)) (ue_entry_at env) (wo_net (snd s))) =
         (i, wo_net (snd s')) \<and>
       (if i > 0
        then ed_dirty (fst s') = 0 \<and> ed_id (fst s') = (if ed_id (fst s) \<le> 0 then i else ed_id (fst s)) \<and>
          (in_remove inp \<longrightarrow> wo_disk (snd s') (backup_path (ed_id (fst s)) 64) = None)
        else ed_dirty (fst s') = ed_dirty (fst s) \<and> ed_id (fst s') = ed_id (fst s) \<and>
          wo_disk (snd s') (backup_path (ed_id (fst s)) 64) = Some (ed_text (fst s))))"
proof -
  obtain ts where ts: "format_ts env (ed_stamp (fst s)) = Some ts" and inv: "editor_inv (fst s)"
    using assms(1) by (auto simp: editor_ready_def)
  show ?thesis
  proof (cases "ed_dirty (fst s) = 0")
    case True
    then show ?thesis using assms(2) by (simp add: editor_step_drawn[OF ts])
  next
    case False
    have c: "saves (turn_key inp)" "in_key inp = ERR \<longrightarrow> ed_dirty (fst s) \<noteq> 0"
      "\<not> (ed_dirty (fst s) = 0 \<and> ed_id (fst s) > 0)"
      using assms(2) False by (simp_all add: turn_key_def)
    obtain s' where s': "editor_step env inp s = Next s'" "save_done env inp (fst s) (snd s) (fst s') (snd s')"
      "keeps s s'" "ed_text (fst s') = ed_text (fst s)"
      by (rule save_turn[OF assms(1) c])
    have path: "backup_path (if ed_id (fst s) > 0 then ed_id (fst s) else 0) = backup_path (ed_id (fst s))"
      by (simp add: backup_path_def fun_eq_iff)
    obtain i net where i: "save_call env (fst s) (wo_net (snd s)) = (i, net)" by force
    show ?thesis
      using False s' i assms(3,4) length_ed_text[OF inv]
      by (intro exI[of _ s'] conjI)
         (auto simp: save_done_def save_call_def backup_write_def backup_remove_def path min_absorb2 Let_def
           split: if_splits)
  qed
qed

theorem timeout_protects_text_witness:
  "\<exists>s' i. editor_step demo_env (demo_input ERR) (demo_editor, demo_world) = Next s' \<and>
    net_post_entry demo_proto (''a'' @ [CHR 0xC3, CHR 0xA9] @ ''b'') 0 demo_wire = (i, wo_net (snd s')) \<and>
    (if i > 0 then ed_dirty (fst s') = 0 \<and> ed_id (fst s') = i
     else wo_disk (snd s') ''diary_new.tmp'' = Some (''a'' @ [CHR 0xC3, CHR 0xA9] @ ''b''))"
proof -
  have "backup_path 0 64 = ''diary_new.tmp''" by (simp add: backup_path_def snprintf_def)
  moreover have "editor_ready demo_env (demo_editor, demo_world)" by (simp add: editor_ready_def)
  ultimately show ?thesis
    using timeout_protects_text[of demo_env "(demo_editor, demo_world)" "demo_input ERR"]
    by (auto simp: demo_env_world split: if_splits)
qed

subsection \<open>Leaving\<close>

text \<open>The two keys that leave the editor: ESC, and a typed byte for which there is no memory.\<close>

lemma type_leaves:
  assumes "editor_inv st" and "key_char ch = Some c" and "\<forall>st'. editor_type inp c st \<noteq> Next st'"
  shows "in_realloc inp = None \<and> ed_size st \<le> ed_len st + 1"
proof -
  have "in_realloc inp \<noteq> Some junk" for junk
    using editor_type_ok[OF assms(1) _ key_char_nul[OF assms(2)]] assms(3) by blast
  then have none: "in_realloc inp = None" by (cases "in_realloc inp") auto
  have "ed_size st \<le> ed_len st + 1"
  proof (rule ccontr)
    assume big: "\<not> ?thesis"
    then have "grow_buffer inp st = Some st" by (simp add: grow_buffer_def)
    moreover obtain st' where "put_byte c st = Some st'"
      using put_byte_ok[OF assms(1) _ key_char_nul[OF assms(2)]] big by force
    ultimately show False using assms(3) by (simp add: editor_type_def)
  qed
  with none show ?thesis ..
qed

lemma key_leaves:
  assumes "editor_inv st" and "\<not> saves ch" and "editor_key env inp ch (st, w) = Leave s'"
  shows "ch = Byte (CHR 0x1B) \<and> ed_dirty st = 0 \<or>
    key_char ch \<noteq> None \<and> in_realloc inp = None \<and> ed_size st \<le> ed_len st + 1"
proof (cases ch rule: tested_key)
  case (types c)
  then have "\<forall>st'. editor_type inp c st \<noteq> Next st'" using assms(3) by (auto simp: editor_key_types)
  then show ?thesis using type_leaves[OF assms(1) types] types by simp
next
  case rubs
  then show ?thesis using assms(3) by (auto simp: editor_key_rubs as_turn_def split: option.splits)
next
  case escape
  then show ?thesis using assms(3) by (simp add: editor_key_esc split: if_splits)
next
  case (ignored c)
  then show ?thesis using assms(2,3) by (simp add: editor_key_ignored)
next
  case motion
  then show ?thesis
    using assms(2,3) by (cases ch) (auto simp: editor_key_other as_turn_def split: option.splits if_splits)
qed

text \<open>
  C19. The editor is left with unsaved changes in one case only: it needed a larger buffer for a typed
  byte and got no memory. Otherwise it was left by ESC on a text without changes.
\<close>

theorem editor_left_clean:
  assumes "editor_inv (fst s)" and "editor_step env inp s = Leave s'"
  shows "(in_key inp = Byte (CHR 0x1B) \<and> ed_dirty (fst s) = 0) \<or>
    (key_char (in_key inp) \<noteq> None \<and> in_realloc inp = None \<and> ed_size (fst s) \<le> ed_len (fst s) + 1)"
proof -
  obtain ts where ts: "format_ts env (ed_stamp (fst s)) = Some ts"
    using assms editor_step_dated by blast
  have e: "editor_key env inp (turn_key inp) (fst (drawn inp ts s), snd (drawn inp ts s)) = Leave s'"
    using assms(2) by (auto simp: editor_step_drawn[OF ts] split: if_splits)
  have d: "editor_inv (fst (drawn inp ts s))" using assms(1) by simp
  have ns: "\<not> saves (turn_key inp)"
  proof
    assume "saves (turn_key inp)"
    from editor_key_saves[OF this] e show False by (metis save_keeps[OF d] outcome.distinct(1))
  qed
  then have "turn_key inp = in_key inp" by (auto simp: turn_key_def split: if_splits)
  with key_leaves[OF d ns e] show ?thesis by (simp add: drawn_def)
qed

text \<open>
  C20. ESC never discards: with unsaved changes, no number of ESC keys leaves the editor, although its
  message promises that a second ESC does.
\<close>

theorem esc_never_discards:
  assumes "editor_ready env s" and "ed_dirty (fst s) \<noteq> 0"
    and "\<forall>inp \<in> set inps. in_key inp = Byte (CHR 0x1B)"
  shows "\<exists>s'. editor_loop env inps s = (Next s', []) \<and> ed_dirty (fst s') \<noteq> 0"
  using assms
proof (induction inps arbitrary: s)
  case Nil
  then show ?case by (simp add: editor_loop_def)
next
  case (Cons inp inps)
  obtain ts where ts: "format_ts env (ed_stamp (fst s)) = Some ts" and inv: "editor_inv (fst s)"
    using Cons.prems(1) by (auto simp: editor_ready_def)
  let ?s1 = "((fst (drawn inp ts s))\<lparr>ed_status := esc_status, ed_dirty := -1\<rparr>, snd (drawn inp ts s))"
  have "editor_step env inp s = Next ?s1"
    using editor_step_esc[OF ts] Cons.prems(2,3) by simp
  moreover have "\<exists>s'. editor_loop env inps ?s1 = (Next s', []) \<and> ed_dirty (fst s') \<noteq> 0"
    using Cons.prems ts inv by (intro Cons.IH) (simp_all add: editor_ready_def)
  ultimately show ?case by (simp add: editor_loop_def)
qed

theorem esc_never_discards_witness:
  "\<exists>s'. editor_loop demo_env (replicate 5 (demo_input (Byte (CHR 0x1B)))) (demo_editor, demo_world) =
    (Next s', [])"
  using esc_never_discards[of demo_env "(demo_editor, demo_world)" "replicate 5 (demo_input (Byte (CHR 0x1B)))"]
  by (auto simp: editor_ready_def simp del: replicate_Suc)

theorem editor_left_clean_witness:
  "\<exists>s'. editor_step demo_env (demo_input (Byte (CHR 0x1B))) (demo_editor\<lparr>ed_dirty := 0\<rparr>, demo_world) = Leave s' \<and>
    (in_key (demo_input (Byte (CHR 0x1B))) = Byte (CHR 0x1B))"
proof -
  have ts: "format_ts demo_env (ed_stamp (fst (demo_editor\<lparr>ed_dirty := 0\<rparr>, demo_world))) = Some ''2026-01-02 03:04''"
    by simp
  obtain s' where s': "editor_step demo_env (demo_input (Byte (CHR 0x1B))) (demo_editor\<lparr>ed_dirty := 0\<rparr>, demo_world) =
      Leave s'"
    using editor_step_esc[OF ts, of "demo_input (Byte (CHR 0x1B))"] by simp
  from editor_left_clean[OF _ this] show ?thesis using s' by auto
qed

subsection \<open>From the keyboard to the database\<close>

lemma demo_typed: "list_all2 (\<lambda>inp c. input_types inp = Some c) (map (\<lambda>c. demo_input (Byte c)) ''hi'') ''hi''"
  by (simp add: input_types_def typed_byte_def)

text \<open>A new entry, typed, saved and left: what is on the server, on disk and of the terminal afterwards.\<close>

lemma typed_entry_core:
  assumes "sealed_server sq tables lib enc dec" and "ue_proto env = wire_proto lib sq enc dec"
    and "connected tables (wo_net w)" and "t_seq (tables (wire_db (wo_net w))) < 2 ^ 31 - 2"
    and "fits_long (ue_entry_at env)" and "format_ts env t \<noteq> None" and "in_calloc inp"
    and "list_all2 (\<lambda>inp c. input_types inp = Some c) keys cs"
    and "saves (in_key save)" and "in_remove save" and "in_key leave = Byte (CHR 0x1B)"
  shows "\<exists>w' b. screen_editor env inp 0 None t (keys @ save # leave # rest) w = (Leave w', rest) \<and>
    connected tables (wo_net w') \<and> dec b = Some cs \<and>
    tables (wire_db (wo_net w')) = tb_add (t_seq (tables (wire_db (wo_net w))) + 1) (wire_user (wo_net w))
      (if ue_entry_at env > 0 then ue_entry_at env else c_long (wire_now (wo_net w))) b
      (tables (wire_db (wo_net w))) \<and>
    wire_user (wo_net w') = wire_user (wo_net w) \<and>
    wo_ixon w' = wo_ixon w \<and> wo_disk w' = (wo_disk w)(''diary_new.tmp'' := None)"
proof -
  obtain st where o: "editor_open inp 0 None t = Next st" "editor_inv st" "content st = ([], 0)"
    "ed_id st = 0" "ed_stamp st = t" "ed_dirty st = 0"
    using editor_open_new[OF assms(7)] by blast
  let ?s0 = "(st, w\<lparr>wo_ixon := False\<rparr>)"
  have r0: "editor_ready env ?s0" using o assms(6) by (simp add: editor_ready_def)
  obtain s1 where s1: "run_turns (editor_step env) keys ?s0 = (Next s1, [])" "editor_ready env s1"
    "content (fst s1) = put_text cs ([], 0)" "editor_others s1 = editor_others ?s0"
    using editor.typed_all[OF r0 assms(8)] o(3) by auto
  have t1: "ed_text (fst s1) = cs" using s1(3) by (simp add: content_def put_text_def)
  have n1: "wo_net (snd s1) = wo_net w" "wo_disk (snd s1) = wo_disk w" "ed_id (fst s1) = 0" "ed_stamp (fst s1) = t"
    using s1(4) o by (simp_all add: editor_others_def)
  obtain ts where ts: "format_ts env (ed_stamp (fst s1)) = Some ts" and inv1: "editor_inv (fst s1)"
    using s1(2) by (auto simp: editor_ready_def)
  have d1: "editor_inv (fst (drawn save ts s1))" using inv1 by simp
  obtain s2 where s2: "editor_save env save (fst (drawn save ts s1), snd (drawn save ts s1)) = Next s2"
    "keeps (fst (drawn save ts s1), snd (drawn save ts s1)) s2"
    "save_done env save (fst (drawn save ts s1)) (snd (drawn save ts s1)) (fst s2) (snd s2)"
    using save_keeps[OF d1] n1(3) by (metis drawn_simps(5) less_irrefl)
  have tk: "turn_key save = in_key save" "in_key save \<noteq> ERR"
    using assms(9) by (auto simp: turn_key_def)
  then have step2: "editor_step env save s1 = Next s2"
    using s2(1) assms(9) by (simp add: editor_step_drawn[OF ts] editor_key_saves)
  have cs: "c_str cs = cs" using inv1 t1 by (simp add: c_str_id editor_inv_def)
  obtain b w2 where b: "dec b = Some cs" "net_post_entry (ue_proto env) cs (ue_entry_at env) (wo_net w) =
      (t_seq (tables (wire_db (wo_net w))) + 1, w2)" "connected tables w2" "wire_user w2 = wire_user (wo_net w)"
    "tables (wire_db w2) = tb_add (t_seq (tables (wire_db (wo_net w))) + 1) (wire_user (wo_net w))
      (if ue_entry_at env > 0 then ue_entry_at env else c_long (wire_now (wo_net w))) b
      (tables (wire_db (wo_net w)))"
    using sealed_server.post_exact[OF assms(1,3,4,5) refl, of cs] cs assms(2) by auto
  have pos: "0 < t_seq (tables (wire_db (wo_net w))) + 1"
    using assms(3) by (simp add: connected_def roomy_def tables_inv_def)
  have w2: "wo_net (snd s2) = w2" "ed_dirty (fst s2) = 0"
    "wo_disk (snd s2) = (wo_disk w)(''diary_new.tmp'' := None)"
    using s2(3) b(2) pos n1 t1 assms(10)
    by (auto simp: save_done_def save_call_def backup_remove_def backup_write_def backup_path_def
        snprintf_def Let_def)
  have ts2: "format_ts env (ed_stamp (fst s2)) = Some ts"
    using s2(2) ts by (simp add: keeps_def)
  have "editor_step env leave s2 = Leave (drawn leave ts s2)"
    using editor_step_esc[OF ts2 assms(11)] w2(2) by simp
  then have "editor_loop env (keys @ save # leave # rest) ?s0 = (Leave (drawn leave ts s2), rest)"
    using run_turns_append[OF s1(1), of "save # leave # rest"] step2 by (simp add: editor_loop_def)
  then have "screen_editor env inp 0 None t (keys @ save # leave # rest) w =
      (Leave ((snd (drawn leave ts s2))\<lparr>wo_ixon := wo_ixon w\<rparr>), rest)"
    using o(1) by (simp add: screen_editor_def)
  then show ?thesis using b w2 by (intro exI[of _ "(snd (drawn leave ts s2))\<lparr>wo_ixon := wo_ixon w\<rparr>"] exI[of _ b]) simp
qed

end
