(* ===== verification/EditorRefines.thy ===== *)
theory EditorRefines
  imports EditorSaving
begin

text \<open>
  The editor as a list of characters with a cursor between two of them, and the simulation: every turn of
  the editor of Editor.thy, on its block of bytes, is a step of this one.
\<close>

subsection \<open>Characters of a byte string\<close>

function chars :: "bytes \<Rightarrow> bytes list" where
  "chars [] = []"
| "chars (c # s) = (c # takeWhile u8_is_cont s) # chars (dropWhile u8_is_cont s)"
  by pat_completeness auto
termination by (relation "measure length") (auto simp: le_imp_less_Suc length_dropWhile_le)

lemma concat_chars [simp]: "concat (chars s) = s"
  by (induction s rule: chars.induct) auto

lemma chars_empty_iff [simp]: "chars s = [] \<longleftrightarrow> s = []"
  by (cases s) auto

text \<open>A byte string that starts with a whole character, or is empty.\<close>

definition starts_char :: "bytes \<Rightarrow> bool" where
  "starts_char s \<longleftrightarrow> (s \<noteq> [] \<longrightarrow> \<not> u8_is_cont (hd s))"

lemma span_all [simp]:
  "\<forall>x \<in> set s. P x \<Longrightarrow> takeWhile P s = s" "\<forall>x \<in> set s. P x \<Longrightarrow> dropWhile P s = []"
  by (induction s) auto

lemma span_append [simp]:
  "\<forall>x \<in> set s. P x \<Longrightarrow> takeWhile P (s @ t) = s @ takeWhile P t"
  "\<forall>x \<in> set s. P x \<Longrightarrow> dropWhile P (s @ t) = dropWhile P t"
  by (induction s) auto

lemma chars_append: "starts_char b \<Longrightarrow> chars (a @ b) = chars a @ chars b"
proof (induction a rule: chars.induct)
  case (2 c s)
  show ?case
  proof (cases "\<forall>x \<in> set s. u8_is_cont x")
    case True
    moreover have "takeWhile u8_is_cont b = []" "dropWhile u8_is_cont b = b"
      using 2(2) by (cases b; simp add: starts_char_def)+
    ultimately show ?thesis by simp
  next
    case False
    then have "takeWhile u8_is_cont (s @ b) = takeWhile u8_is_cont s"
      "dropWhile u8_is_cont (s @ b) = dropWhile u8_is_cont s @ b"
      by (auto simp: takeWhile_append dropWhile_append)
    then show ?thesis using 2 by simp
  qed
qed simp

lemma chars_one_char: "one_char ch \<Longrightarrow> chars ch = [ch]"
  by (cases ch) (auto simp: one_char_def)

lemma chars_whole: "starts_char s \<Longrightarrow> ch \<in> set (chars s) \<Longrightarrow> one_char ch"
proof (induction s rule: chars.induct)
  case (2 c s)
  have "starts_char (dropWhile u8_is_cont s)"
    using hd_dropWhile[of u8_is_cont s] by (auto simp: starts_char_def)
  moreover have "one_char (c # takeWhile u8_is_cont s)"
    using 2(2) by (auto simp: one_char_def starts_char_def dest: set_takeWhileD)
  ultimately show ?case using 2 by auto
qed simp

lemma chars_snoc_cont:
  "u8_is_cont c \<Longrightarrow> s \<noteq> [] \<Longrightarrow> chars (s @ [c]) = butlast (chars s) @ [last (chars s) @ [c]]"
proof (induction s rule: chars.induct)
  case (2 x s)
  show ?case
  proof (cases "dropWhile u8_is_cont s = []")
    case True
    then have "\<forall>y \<in> set s. u8_is_cont y" by (simp add: dropWhile_eq_Nil_conv)
    then show ?thesis using 2(2) by simp
  next
    case False
    then have "takeWhile u8_is_cont (s @ [c]) = takeWhile u8_is_cont s"
      "dropWhile u8_is_cont (s @ [c]) = dropWhile u8_is_cont s @ [c]"
      by (auto simp: takeWhile_append dropWhile_append dropWhile_eq_Nil_conv)
    then show ?thesis using 2(1,2) False by simp
  qed
qed simp

lemma chars_snoc_lead: "\<not> u8_is_cont c \<Longrightarrow> chars (s @ [c]) = chars s @ [[c]]"
  using chars_append[of "[c]" s] by (simp add: starts_char_def)

text \<open>Taking the last character off, and the first.\<close>

lemma chars_last:
  assumes "starts_char s" and "s \<noteq> []"
  obtains a ch where "s = a @ ch" and "one_char ch" and "starts_char a" and "chars s = chars a @ [ch]"
proof -
  obtain cs ch where c: "chars s = cs @ [ch]" using assms(2) by (metis chars_empty_iff rev_exhaust)
  have ch: "one_char ch" using chars_whole[OF assms(1), of ch] c by simp
  have s: "s = concat cs @ ch" using concat_chars[of s] c by simp
  have a: "starts_char (concat cs)"
    using assms(1) s by (auto simp: starts_char_def)
  have "starts_char ch" using ch by (simp add: one_char_def starts_char_def)
  then have "chars s = chars (concat cs) @ [ch]"
    using chars_append[of ch "concat cs"] chars_one_char[OF ch] s by simp
  then show thesis using that s ch a by blast
qed

lemma chars_first:
  assumes "starts_char s" and "s \<noteq> []"
  obtains ch b where "s = ch @ b" and "one_char ch" and "starts_char b" and "chars s = ch # chars b"
proof -
  obtain c t where s: "s = c # t" using assms(2) by (cases s) auto
  have "starts_char (dropWhile u8_is_cont t)"
    using hd_dropWhile[of u8_is_cont t] by (auto simp: starts_char_def)
  moreover have "one_char (c # takeWhile u8_is_cont t)"
    using assms(1) s by (auto simp: one_char_def starts_char_def dest: set_takeWhileD)
  ultimately show thesis using that[of "c # takeWhile u8_is_cont t" "dropWhile u8_is_cont t"] s by simp
qed

subsection \<open>The editor of characters\<close>

text \<open>The characters before the cursor and those behind it.\<close>

type_synonym zipper = "bytes list \<times> bytes list"

text \<open>Row and column behind some characters, in a window of a given width.\<close>

definition spot :: "int \<Rightarrow> bytes list \<Rightarrow> int \<times> int" where
  "spot cols cs = fold (\<lambda>ch. wrap_step cols (hd ch)) cs (0, 0)"

text \<open>
  Where the cursor lands when row \<open>r\<close> and column \<open>c\<close> are asked for: there, or at the last place of the
  row, or at the end of the text when it has no such row.
\<close>

definition lands :: "int \<Rightarrow> int \<Rightarrow> int \<Rightarrow> zipper \<Rightarrow> bool" where
  "lands cols r c z \<longleftrightarrow> spot cols (fst z) = (r, c) \<or>
     (fst (spot cols (fst z)) = r \<and> (snd z = [] \<or> fst (spot cols (fst z @ [hd (snd z)])) = r + 1)) \<or>
     (snd z = [] \<and> fst (spot cols (fst z)) < r)"

text \<open>Keys that neither edit the text nor move the cursor.\<close>

fun inert :: "key \<Rightarrow> bool" where
  "inert KEY_UP = False" | "inert KEY_DOWN = False" | "inert KEY_LEFT = False" | "inert KEY_RIGHT = False"
| "inert KEY_HOME = False" | "inert KEY_END = False" | "inert KEY_DC = False"
| "inert k = (key_char k = None \<and> \<not> rubs k)"

inductive zip_step :: "int \<Rightarrow> key \<Rightarrow> zipper \<Rightarrow> zipper \<Rightarrow> bool" for cols where
  zip_char: "key_char k = Some c \<Longrightarrow> \<not> u8_is_cont c \<Longrightarrow> zip_step cols k (L, R) (L @ [[c]], R)"
| zip_more: "key_char k = Some c \<Longrightarrow> u8_is_cont c \<Longrightarrow> zip_step cols k (L @ [ch], R) (L @ [ch @ [c]], R)"
| zip_rub: "rubs k \<Longrightarrow> zip_step cols k (L @ [ch], R) (L, R)"
| zip_rub_start: "rubs k \<Longrightarrow> zip_step cols k ([], R) ([], R)"
| zip_delete: "zip_step cols KEY_DC (L, ch # R) (L, R)"
| zip_delete_end: "zip_step cols KEY_DC (L, []) (L, [])"
| zip_left: "zip_step cols KEY_LEFT (L @ [ch], R) (L, ch # R)"
| zip_right: "zip_step cols KEY_RIGHT (L, ch # R) (L @ [ch], R)"
| zip_up: "spot cols L = (r, c) \<Longrightarrow> r > 0 \<Longrightarrow> L' @ R' = L @ R \<Longrightarrow> lands cols (r - 1) c (L', R') \<Longrightarrow>
    zip_step cols KEY_UP (L, R) (L', R')"
| zip_top: "fst (spot cols L) = 0 \<Longrightarrow> zip_step cols KEY_UP (L, R) (L, R)"
| zip_down: "spot cols L = (r, c) \<Longrightarrow> L' @ R' = L @ R \<Longrightarrow> lands cols (r + 1) c (L', R') \<Longrightarrow>
    zip_step cols KEY_DOWN (L, R) (L', R')"
| zip_home: "spot cols L = (r, c) \<Longrightarrow> L' @ R' = L @ R \<Longrightarrow> lands cols r 0 (L', R') \<Longrightarrow>
    zip_step cols KEY_HOME (L, R) (L', R')"
| zip_end: "spot cols L = (r, c) \<Longrightarrow> L' @ R' = L @ R \<Longrightarrow> lands cols r cols (L', R') \<Longrightarrow>
    zip_step cols KEY_END (L, R) (L', R')"
| zip_inert: "inert k \<Longrightarrow> zip_step cols k z z"


text \<open>The state of the editor as characters.\<close>

definition sides :: "editor \<Rightarrow> zipper" where
  "sides st = (chars (take (ed_cursor st) (ed_text st)), chars (drop (ed_cursor st) (ed_text st)))"

lemma sides_content: "content st' = (a @ b, length a) \<Longrightarrow> sides st' = (chars a, chars b)"
  by (auto simp: content_def sides_def)

lemma sides_cong: "content st' = content st \<Longrightarrow> sides st' = sides st"
  by (simp add: content_def sides_def)

text \<open>The text cut at the cursor.\<close>

lemma on_char_cut_text:
  assumes "editor_inv st" and "on_char st"
  obtains a b where "ed_text st = a @ b" and "ed_cursor st = length a" and "starts_char a" and "starts_char b"
    and "sides st = (chars a, chars b)" and "starts_char (a @ b)"
proof -
  let ?k = "ed_cursor st"
  note len = length_ed_text[OF assms(1)]
  have k: "?k \<le> length (ed_text st)" using assms(1) len by (simp add: editor_inv_def)
  let ?a = "take ?k (ed_text st)" and ?b = "drop ?k (ed_text st)"
  have "starts_char (ed_text st)" "starts_char ?a" "starts_char ?b"
    using assms(2) len k by (auto simp: starts_char_def on_char_def hd_conv_nth)
  moreover have "length ?a = ?k" using k by simp
  ultimately show thesis using that[of ?a ?b] by (simp add: sides_def)
qed

lemma on_char_starts:
  assumes "editor_inv st" and "content st = (a @ b, length a)" and "starts_char b" and "starts_char (a @ b)"
  shows "on_char st"
  using assms length_ed_text[OF assms(1)]
  by (cases b) (auto simp: on_char_def content_def starts_char_def hd_conv_nth)

subsection \<open>Positions\<close>

lemma pos_fold: "k \<le> length buf \<Longrightarrow> pos buf cols k = fold (pos_step cols) (take k buf) (0, 0)"
  by (induction k) (simp_all add: pos_Suc take_Suc_conv_app_nth)

lemma fold_chars:
  "starts_char s \<Longrightarrow> fold (pos_step cols) s p = fold (\<lambda>ch. wrap_step cols (hd ch)) (chars s) p"
proof (induction s arbitrary: p rule: chars.induct)
  case (2 c s)
  have w: "starts_char (dropWhile u8_is_cont s)"
    using hd_dropWhile[of u8_is_cont s] by (auto simp: starts_char_def)
  have all: "fold (pos_step cols) t q = q" if "\<forall>x \<in> set t. u8_is_cont x" for t q
    using that by (induction t) (simp_all add: pos_step_def)
  have "fold (pos_step cols) (takeWhile u8_is_cont s) q = q" for q
    by (rule all) (blast dest: set_takeWhileD)
  then have "fold (pos_step cols) s q = fold (pos_step cols) (dropWhile u8_is_cont s) q" for q
    by (metis comp_apply fold_append takeWhile_dropWhile_id)
  moreover have "pos_step cols c p = wrap_step cols c p" using 2(2) by (simp add: pos_step_def starts_char_def)
  ultimately show ?case using 2(1)[OF w] by simp
qed simp

lemma pos_spot:
  assumes "editor_inv st" and "ed_text st = a @ b" and "starts_char a"
  shows "pos (ed_buf st) cols (length a) = spot cols (chars a)"
proof -
  have "ed_buf st = a @ b @ drop (ed_len st) (ed_buf st)"
    using editor_buf_text[of st] assms(2) by simp
  then have "length a \<le> length (ed_buf st)" "take (length a) (ed_buf st) = a"
    by (metis le_add1 length_append, metis append_eq_conv_conj)
  then show ?thesis
    using pos_fold[of "length a" "ed_buf st" cols] fold_chars[OF assms(3)] by (simp add: spot_def)
qed

lemma pos_row_step: "fst (pos buf cols (Suc k)) \<le> fst (pos buf cols k) + 1"
  using pos_next_row[of buf k cols] pos_same_row[of buf k cols] by fastforce

text \<open>Every row up to the last one has an index.\<close>

lemma row_index_exists:
  "0 \<le> r \<Longrightarrow> r \<le> fst (pos buf cols n) \<Longrightarrow> \<exists>k \<le> n. fst (pos buf cols k) = r"
proof (induction n)
  case (Suc n)
  then show ?case
    using pos_row_step[of buf cols n] by (cases "r \<le> fst (pos buf cols n)") (auto intro: le_SucI)
qed auto

lemma goto_lands:
  assumes "editor_inv st" and "on_char st" and "0 \<le> r"
    and "j = vpos_to_idx (ed_buf st) (ed_len st) cols r c" and "st' = st\<lparr>ed_cursor := j\<rparr>"
    and "sides st = (L, R)"
  obtains L' R' where "sides st' = (L', R')" and "L' @ R' = L @ R" and "lands cols r c (L', R')" and "on_char st'"
proof -
  let ?buf = "ed_buf st" and ?len = "ed_len st"
  have bd: "boundary ?buf ?len j" by (simp add: assms(4))
  have inv': "editor_inv st'" using bd assms(1,5) editor_inv_cursor by (simp add: boundary_def)
  have on': "on_char st'" using on_char_goto[OF assms(1,2) bd] assms(5) by simp
  obtain a b where ab: "ed_text st' = a @ b" "ed_cursor st' = length a" "starts_char a" "starts_char b"
    "sides st' = (chars a, chars b)" "starts_char (a @ b)"
    using on_char_cut_text[OF inv' on'] .
  have t: "ed_text st' = ed_text st" by (simp add: assms(5) ed_text_def)
  obtain a0 b0 where ab0: "ed_text st = a0 @ b0" "starts_char b0" "sides st = (chars a0, chars b0)"
    using on_char_cut_text[OF assms(1,2)] .
  have app: "chars a @ chars b = L @ R"
    using chars_append[OF ab(4), of a] chars_append[OF ab0(2), of a0] ab(1) ab0 t assms(6) by simp
  have j: "j = length a" using ab(2) assms(5) by simp
  have p: "pos ?buf cols j = spot cols (chars a)"
    using pos_spot[OF inv' ab(1,3), of cols] j assms(5) by simp
  have len: "?len = length a + length b" using length_ed_text[OF assms(1)] ab(1) t by simp
  have "lands cols r c (chars a, chars b)"
  proof -
    have st: "stops_at ?buf ?len cols r c j" using vpos_to_idx_first assms(4) by simp
    consider "pos ?buf cols j = (r, c)" | "j = ?len"
      | "j < ?len" "fst (pos ?buf cols j) = r" "ends_row ?buf cols j"
      using st bd unfolding stops_at_def boundary_def by force
    then show ?thesis
    proof cases
      case 1
      then show ?thesis using p by (simp add: lands_def)
    next
      case 2
      then have b: "b = []" using len j by simp
      have "fst (pos ?buf cols j) \<le> r"
      proof (rule ccontr)
        assume "\<not> fst (pos ?buf cols j) \<le> r"
        then obtain k where "k \<le> ?len" "fst (pos ?buf cols k) = r"
          using row_index_exists[OF assms(3), of ?buf cols ?len] 2 by auto
        then show False
          using vpos_to_idx_row[of k ?len ?buf cols r c] assms(4) \<open>\<not> _\<close> by simp
      qed
      then show ?thesis using p b by (auto simp: lands_def)
    next
      case 3
      then have "b \<noteq> []" using len j by auto
      then obtain ch b' where ch: "b = ch @ b'" "one_char ch" "chars b = ch # chars b'"
        using chars_first[OF ab(4)] by metis
      obtain x ys where x: "ch = x # ys" using ch(2) by (cases ch) (auto simp: one_char_def)
      have "?buf ! j = ed_text st' ! j" using text_nth[OF assms(1) 3(1)] t by simp
      then have bj: "?buf ! j = x" using ab(1) ch(1) x j by simp
      have nc: "\<not> u8_is_cont x" using ch(2) x by (simp add: one_char_def)
      have "pos ?buf cols (Suc j) = spot cols (chars a @ [ch])"
        using p bj nc x by (simp add: pos_Suc pos_step_def spot_def)
      moreover have "fst (pos ?buf cols (Suc j)) = r + 1"
        using pos_next_row[of ?buf j cols] 3(2,3) bj nc by simp
      ultimately show ?thesis using 3(2) p ch(3) by (simp add: lands_def)
    qed
  qed
  then show thesis using that ab(5) app on' by blast
qed

lemma vpos_spot:
  assumes "editor_inv st" and "ed_text st = a @ b" and "ed_cursor st = length a" and "starts_char a"
  shows "editor_vpos inp st = spot (in_cols inp) (chars a)"
  using pos_spot[OF assms(1,2,4), of "in_cols inp"] assms(1,3)
  by (simp add: editor_vpos_def get_vpos_pos editor_inv_def min_absorb1)

lemma spot_row_nonneg: "0 \<le> fst (spot cols cs)"
proof -
  have "0 \<le> fst p \<Longrightarrow> 0 \<le> fst (fold (\<lambda>ch. wrap_step cols (hd ch)) cs p)" for p
    by (induction cs arbitrary: p) (auto simp: wrap_step_def split: prod.splits)
  then show ?thesis by (simp add: spot_def)
qed

subsection \<open>The simulation\<close>

lemma type_refines:
  assumes "editor_inv st" and "on_char st" and "key_char k = Some c" and "content st' = ins c (content st)"
    and "ed_cursor st = 0 \<longrightarrow> \<not> u8_is_cont c"
  shows "zip_step cols k (sides st) (sides st')"
proof -
  obtain a b where ab: "ed_text st = a @ b" "ed_cursor st = length a" "starts_char a" "sides st = (chars a, chars b)"
    using on_char_cut_text[OF assms(1,2)] .
  have "content st' = ((a @ [c]) @ b, length (a @ [c]))"
    using assms(4) ab(1,2) by (simp add: content_def ins_def)
  then have s': "sides st' = (chars (a @ [c]), chars b)" by (rule sides_content)
  show ?thesis
  proof (cases "u8_is_cont c")
    case False
    then show ?thesis using assms(3) s' ab(4) by (simp add: chars_snoc_lead zip_char)
  next
    case True
    then have a: "a \<noteq> []" using assms(5) ab(2) by auto
    then have "chars a = butlast (chars a) @ [last (chars a)]" by simp
    then show ?thesis
      using zip_more[OF assms(3) True, of cols "butlast (chars a)" "last (chars a)" "chars b"]
        chars_snoc_cont[OF True a] s' ab(4) by simp
  qed
qed

lemma rub_refines:
  assumes "editor_inv st" and "on_char st" and "rubs k" and "editor_backspace st = Some st'"
  shows "zip_step cols k (sides st) (sides st')"
proof -
  obtain a b where ab: "ed_text st = a @ b" "ed_cursor st = length a" "starts_char a" "sides st = (chars a, chars b)"
    using on_char_cut_text[OF assms(1,2)] .
  show ?thesis
  proof (cases "a = []")
    case True
    then have "st' = st" using assms(4) ab(2) by (simp add: editor_backspace_def)
    then show ?thesis using zip_rub_start[OF assms(3)] ab(4) True by simp
  next
    case False
    then obtain a0 ch where ch: "a = a0 @ ch" "one_char ch" "chars a = chars a0 @ [ch]"
      using chars_last[OF ab(3)] by metis
    have "char_start (ed_buf st) (length a0 + length ch - 1) = length a0"
      using char_start_char[OF assms(1) _ ch(2)] ab(1) ch(1) by simp
    moreover obtain st2 where "editor_backspace st = Some st2"
      "content st2 = (let k = ed_cursor st; j = (if k = 0 then 0 else char_start (ed_buf st) (k - 1)) in
         (take j (ed_text st) @ drop k (ed_text st), j))"
      using editor_backspace_ok[OF assms(1)] by blast
    ultimately have "content st' = (a0 @ b, length a0)"
      using assms(4) ab(1,2) ch(1) False by (simp add: Let_def)
    then show ?thesis using zip_rub[OF assms(3)] sides_content ab(4) ch(3) by simp
  qed
qed

lemma delete_refines:
  assumes "editor_inv st" and "on_char st" and "editor_delete st = Some st'"
  shows "zip_step cols KEY_DC (sides st) (sides st')"
proof -
  obtain a b where ab: "ed_text st = a @ b" "ed_cursor st = length a" "starts_char b" "sides st = (chars a, chars b)"
    using on_char_cut_text[OF assms(1,2)] .
  have len: "ed_len st = length a + length b" using length_ed_text[OF assms(1)] ab(1) by simp
  show ?thesis
  proof (cases "b = []")
    case True
    then have "st' = st" using assms(3) ab(2) len by (simp add: editor_delete_def)
    then show ?thesis using zip_delete_end ab(4) True by simp
  next
    case False
    then obtain ch b' where ch: "b = ch @ b'" "one_char ch" "starts_char b'" "chars b = ch # chars b'"
      using chars_first[OF ab(3)] by metis
    have "u8_char_len (ed_buf st) (ed_len st) (length a) = length ch"
      using u8_char_len_char[OF assms(1) _ ch(2), of a b'] ab(1) ch(1,3) by (simp add: starts_char_def)
    moreover obtain st2 where "editor_delete st = Some st2"
      "content st2 = (let k = ed_cursor st;
           n = (if k < ed_len st then u8_char_len (ed_buf st) (ed_len st) k else 0) in
         (take k (ed_text st) @ drop (k + n) (ed_text st), k))"
      using editor_delete_ok[OF assms(1)] by blast
    ultimately have "content st' = (a @ b', length a)"
      using assms(3) ab(1,2) ch(1,2) len False by (simp add: Let_def)
    then show ?thesis using zip_delete sides_content ab(4) ch(4) by simp
  qed
qed

lemma left_refines:
  assumes "editor_inv st" and "on_char st" and "ed_cursor st > 0"
    and "st' = st\<lparr>ed_cursor := char_start (ed_buf st) (ed_cursor st - 1)\<rparr>"
  shows "zip_step cols KEY_LEFT (sides st) (sides st')"
proof -
  obtain a b where ab: "ed_text st = a @ b" "ed_cursor st = length a" "starts_char a" "starts_char b"
    "sides st = (chars a, chars b)"
    using on_char_cut_text[OF assms(1,2)] .
  then obtain a0 ch where ch: "a = a0 @ ch" "one_char ch" "chars a = chars a0 @ [ch]"
    using chars_last[OF ab(3)] assms(3) by (metis length_greater_0_conv)
  have "char_start (ed_buf st) (length a0 + length ch - 1) = length a0"
    using char_start_char[OF assms(1) _ ch(2)] ab(1) ch(1) by simp
  then have "content st' = (a0 @ (ch @ b), length a0)"
    using ab(1,2) ch(1) assms(4) by (simp add: content_def ed_text_def)
  moreover have "chars (ch @ b) = ch # chars b"
    using chars_append[OF ab(4), of ch] chars_one_char[OF ch(2)] by simp
  ultimately show ?thesis using zip_left sides_content ab(5) ch(3) by simp
qed

lemma right_refines:
  assumes "editor_inv st" and "on_char st" and "ed_cursor st < ed_len st"
    and "st' = st\<lparr>ed_cursor := ed_cursor st + u8_char_len (ed_buf st) (ed_len st) (ed_cursor st)\<rparr>"
  shows "zip_step cols KEY_RIGHT (sides st) (sides st')"
proof -
  obtain a b where ab: "ed_text st = a @ b" "ed_cursor st = length a" "starts_char b" "sides st = (chars a, chars b)"
    using on_char_cut_text[OF assms(1,2)] .
  have "b \<noteq> []" using length_ed_text[OF assms(1)] ab(1,2) assms(3) by auto
  then obtain ch b' where ch: "b = ch @ b'" "one_char ch" "starts_char b'" "chars b = ch # chars b'"
    using chars_first[OF ab(3)] by metis
  have "u8_char_len (ed_buf st) (ed_len st) (length a) = length ch"
    using u8_char_len_char[OF assms(1) _ ch(2), of a b'] ab(1) ch(1,3) by (simp add: starts_char_def)
  then have "content st' = ((a @ ch) @ b', length (a @ ch))"
    using ab(1,2) ch(1) assms(4) by (simp add: content_def ed_text_def)
  then have "sides st' = (chars (a @ ch), chars b')" by (rule sides_content)
  moreover have "chars (a @ ch) = chars a @ [ch]"
    using chars_append[of ch a] chars_one_char[OF ch(2)] ch(2) by (simp add: starts_char_def one_char_def)
  ultimately show ?thesis using zip_right[of cols "chars a" ch "chars b'"] ab(4) ch(4) by simp
qed

lemma vertical_refines:
  assumes "editor_inv st" and "on_char st" and "spot cols (fst (sides st)) = (r, c)"
  shows "r > 0 \<Longrightarrow> zip_step cols KEY_UP (sides st)
      (sides (st\<lparr>ed_cursor := vpos_to_idx (ed_buf st) (ed_len st) cols (r - 1) c\<rparr>))"
    and "zip_step cols KEY_DOWN (sides st)
      (sides (st\<lparr>ed_cursor := vpos_to_idx (ed_buf st) (ed_len st) cols (r + 1) c\<rparr>))"
    and "zip_step cols KEY_HOME (sides st)
      (sides (st\<lparr>ed_cursor := vpos_to_idx (ed_buf st) (ed_len st) cols r 0\<rparr>))"
    and "zip_step cols KEY_END (sides st)
      (sides (st\<lparr>ed_cursor := vpos_to_idx (ed_buf st) (ed_len st) cols r cols\<rparr>))"
proof -
  obtain L R where s: "sides st = (L, R)" by force
  have r: "0 \<le> r" using spot_row_nonneg[of cols L] assms(3) s by simp
  have sp: "spot cols L = (r, c)" using assms(3) s by simp
  note to = goto_lands[OF assms(1,2) _ refl refl s, of _ cols]
  show "zip_step cols KEY_UP (sides st)
      (sides (st\<lparr>ed_cursor := vpos_to_idx (ed_buf st) (ed_len st) cols (r - 1) c\<rparr>))" if "r > 0"
    using to[of "r - 1" c] zip_up[OF sp that] s that by (metis zle_diff1_eq)
  show "zip_step cols KEY_DOWN (sides st)
      (sides (st\<lparr>ed_cursor := vpos_to_idx (ed_buf st) (ed_len st) cols (r + 1) c\<rparr>))"
    using to[of "r + 1" c] zip_down[OF sp] s r by (metis add_increasing2 zero_le_one)
  show "zip_step cols KEY_HOME (sides st)
      (sides (st\<lparr>ed_cursor := vpos_to_idx (ed_buf st) (ed_len st) cols r 0\<rparr>))"
    using to[of r 0] zip_home[OF sp] s r by metis
  show "zip_step cols KEY_END (sides st)
      (sides (st\<lparr>ed_cursor := vpos_to_idx (ed_buf st) (ed_len st) cols r cols\<rparr>))"
    using to[of r cols] zip_end[OF sp] s r by metis
qed

text \<open>A key that does not save: the effect of the code's branch on the characters.\<close>

lemma motion_refines:
  assumes "editor_inv st" and "on_char st" and "\<not> saves ch" and "editor_key env inp ch (st, w) = Next s'"
    and "key_char ch = None" and "\<not> rubs ch" and "\<forall>c. ch \<noteq> Byte c"
  shows "zip_step (in_cols inp) ch (sides st) (sides (fst s'))"
proof -
  obtain a b where ab: "ed_text st = a @ b" "ed_cursor st = length a" "starts_char a"
    "sides st = (chars a, chars b)"
    using on_char_cut_text[OF assms(1,2)] .
  obtain r c where rc: "spot (in_cols inp) (fst (sides st)) = (r, c)" by force
  have v: "editor_vpos inp st = (r, c)" using vpos_spot[OF assms(1) ab(1-3), of inp] rc ab(4) by simp
  note vert = vertical_refines[OF assms(1,2) rc]
  show ?thesis
  proof (cases ch)
    case KEY_UP
    show ?thesis
    proof (cases "r > 0")
      case True
      then show ?thesis using vert(1) assms(4) KEY_UP v by (auto simp: editor_key_other goto_vpos_def)
    next
      case False
      then have "fst (spot (in_cols inp) (fst (sides st))) = 0"
        using spot_row_nonneg[of "in_cols inp" "fst (sides st)"] rc by simp
      then show ?thesis
        using zip_top[of "in_cols inp" "fst (sides st)" "snd (sides st)"] assms(4) KEY_UP v False
        by (auto simp: editor_key_other)
    qed
  next
    case KEY_DOWN
    then show ?thesis using vert(2) assms(4) v by (auto simp: editor_key_other goto_vpos_def)
  next
    case KEY_HOME
    then show ?thesis using vert(3) assms(4) v by (auto simp: editor_key_other goto_vpos_def)
  next
    case KEY_END
    then show ?thesis using vert(4) assms(4) v by (auto simp: editor_key_other goto_vpos_def)
  next
    case KEY_DC
    then show ?thesis
      using assms(4) delete_refines[OF assms(1,2)]
      by (auto simp: editor_key_other as_turn_def split: option.splits)
  next
    case KEY_LEFT
    then show ?thesis
      using assms(4) left_refines[OF assms(1,2) _ refl] by (auto simp: editor_key_other split: if_splits)
  next
    case KEY_RIGHT
    then show ?thesis
      using assms(4) right_refines[OF assms(1,2) _ refl] by (auto simp: editor_key_other split: if_splits)
  next
    case (KEY_F n)
    then show ?thesis using assms(3,4) by (simp add: editor_key_other)
  next
    case (KEY_MOUSE ev)
    then have "sides (fst s') = sides st" using assms(4) by (auto simp: editor_key_other sides_def ed_text_def)
    then show ?thesis using KEY_MOUSE zip_inert[of ch] by simp
  next
    case ERR
    then show ?thesis using assms(4) zip_inert[of ERR "in_cols inp" "sides st"] by (auto simp: editor_key_other)
  qed (use assms(4-7) in \<open>auto simp: editor_key_other\<close>)
qed

lemma key_refines:
  assumes "editor_inv st" and "on_char st" and "\<not> saves ch" and "editor_key env inp ch (st, w) = Next s'"
    and "\<And>c. ed_cursor st = 0 \<Longrightarrow> key_char ch = Some c \<Longrightarrow> \<not> u8_is_cont c"
  shows "zip_step (in_cols inp) ch (sides st) (sides (fst s'))"
proof -
  show ?thesis
  proof (cases ch rule: tested_key)
    case (types c)
    obtain st2 where s': "s' = (st2, w)" "editor_type inp c st = Next st2"
      using assms(4) editor_key_types[OF types, of env inp st w] by (cases "editor_type inp c st") auto
    then have "content st2 = ins c (content st)"
      using editor_type_cases[OF assms(1) key_char_nul[OF types], of inp] by auto
    then show ?thesis using type_refines[OF assms(1,2) types] assms(5)[OF _ types] s' by simp
  next
    case rubs
    then show ?thesis
      using assms(4) rub_refines[OF assms(1,2) rubs]
      by (auto simp: editor_key_rubs[OF rubs] as_turn_def split: option.splits)
  next
    case escape
    then have "sides (fst s') = sides st"
      using assms(4) by (auto simp: editor_key_esc sides_def ed_text_def split: if_splits)
    then show ?thesis using escape zip_inert[of ch] typed_byte_not by simp
  next
    case (ignored c)
    then have "sides (fst s') = sides st" using assms(3,4) by (auto simp: editor_key_ignored)
    then show ?thesis using ignored zip_inert[of ch] by simp
  next
    case motion
    then show ?thesis by (rule motion_refines[OF assms(1-4)])
  qed
qed

lemma saves_inert: "saves k \<Longrightarrow> inert k"
  using typed_byte_not by (cases k) auto

lemma turn_refines:
  assumes "editor_inv (fst s)" and "on_char (fst s)" and "editor_step env inp s = Next s'"
    and "\<And>c. ed_cursor (fst s) = 0 \<Longrightarrow> key_char (in_key inp) = Some c \<Longrightarrow> \<not> u8_is_cont c"
  shows "zip_step (in_cols inp) (in_key inp) (sides (fst s)) (sides (fst s'))"
proof -
  obtain ts where ts: "format_ts env (ed_stamp (fst s)) = Some ts"
    using assms(3) editor_step_dated by blast
  let ?d = "fst (drawn inp ts s)" and ?w = "snd (drawn inp ts s)"
  have d: "editor_inv ?d" using assms(1) by simp
  have od: "on_char ?d" using assms(2) by (simp add: on_char_def)
  have sd: "sides ?d = sides (fst s)" by (simp add: sides_def)
  show ?thesis
  proof (cases "in_key inp = ERR \<and> ed_dirty (fst s) = 0")
    case True
    then show ?thesis
      using assms(3) sd zip_inert[of ERR] by (auto simp: editor_step_drawn[OF ts])
  next
    case False
    then have k: "editor_key env inp (turn_key inp) (?d, ?w) = Next s'"
      using assms(3) by (auto simp: editor_step_drawn[OF ts])
    show ?thesis
    proof (cases "saves (turn_key inp)")
      case True
      obtain s2 where "editor_save env inp (?d, ?w) = Next s2" "content (fst s2) = content ?d"
        using save_keeps[OF d] by blast
      then have "sides (fst s') = sides (fst s)"
        using k sd sides_cong[of "fst s2" ?d] by (simp add: editor_key_saves[OF True])
      moreover have "inert (in_key inp)"
        using True saves_inert by (auto simp: turn_key_def split: if_splits)
      ultimately show ?thesis using zip_inert by simp
    next
      case False
      then have "turn_key inp = in_key inp" by (auto simp: turn_key_def split: if_splits)
      then show ?thesis using key_refines[OF d od False k] assms(4) sd by simp
    qed
  qed
qed

subsection \<open>Sessions\<close>

inductive zip_run :: "(int \<times> key) list \<Rightarrow> zipper \<Rightarrow> zipper \<Rightarrow> bool" where
  zip_run_nil: "zip_run [] z z"
| zip_run_cons: "zip_step cols k z z' \<Longrightarrow> zip_run ks z' z'' \<Longrightarrow> zip_run ((cols, k) # ks) z z''"

inductive_cases zip_typedE: "zip_step cols (Byte c) z z'"
inductive_cases zip_run_nilE: "zip_run [] z z'"
inductive_cases zip_run_consE: "zip_run (k # ks) z z'"

text \<open>
  What a terminal sends: a continuation byte only follows a byte of its character (keys that change
  nothing, a timeout for instance, may come between them) or, at \<open>b\<close>, text that is there already.
\<close>

fun utf8_stream :: "bool \<Rightarrow> key list \<Rightarrow> bool" where
  "utf8_stream b [] \<longleftrightarrow> True"
| "utf8_stream b (k # ks) \<longleftrightarrow>
     (case key_char k of None \<Rightarrow> True | Some c \<Rightarrow> u8_is_cont c \<longrightarrow> b) \<and>
     utf8_stream (key_char k \<noteq> None \<or> (b \<and> inert k)) ks"

abbreviation in_keys :: "ui_input list \<Rightarrow> (int \<times> key) list" where
  "in_keys \<equiv> map (\<lambda>inp. (in_cols inp, in_key inp))"

lemma key_classes: "rubs k \<Longrightarrow> key_char k = None" "inert k \<Longrightarrow> key_char k = None" "inert k \<Longrightarrow> \<not> rubs k"
  using typed_byte_not by (cases k; auto)+

lemma zip_step_stream:
  "zip_step cols k z z' \<Longrightarrow> key_char k \<noteq> None \<or> (fst z \<noteq> [] \<and> inert k) \<Longrightarrow> fst z' \<noteq> []"
  by (induction rule: zip_step.induct) (auto simp: key_classes dest: key_classes)

lemma utf8_stream_mono: "utf8_stream b ks \<Longrightarrow> (b \<Longrightarrow> b') \<Longrightarrow> utf8_stream b' ks"
  by (induction ks arbitrary: b b') (fastforce split: option.splits)+

lemma sides_start: "editor_inv st \<Longrightarrow> fst (sides st) \<noteq> [] \<longleftrightarrow> 0 < ed_cursor st"
  using length_ed_text[of st] by (auto simp: sides_def editor_inv_def)

lemma editor_step_leaves:
  assumes "editor_inv (fst s)" and "editor_step env inp s = Leave s'"
  shows "content (fst s') = content (fst s)"
proof -
  obtain ts where ts: "format_ts env (ed_stamp (fst s)) = Some ts"
    using assms(2) editor_step_dated by blast
  let ?d = "fst (drawn inp ts s)" and ?w = "snd (drawn inp ts s)"
  have d: "editor_inv ?d" using assms(1) by simp
  have ne: "\<not> (in_key inp = ERR \<and> ed_dirty (fst s) = 0)"
    using assms(2) by (rule contrapos_pn) (simp add: editor_step_drawn[OF ts])
  have k: "editor_key env inp (turn_key inp) (?d, ?w) = Leave s'"
    using assms(2) unfolding editor_step_drawn[OF ts] if_not_P[OF ne] by simp
  have "\<not> saves (turn_key inp)"
  proof
    assume sv: "saves (turn_key inp)"
    obtain s2 where "editor_save env inp (?d, ?w) = Next s2" by (rule save_keeps[OF d])
    then show False using k by (simp add: editor_key_saves[OF sv])
  qed
  then show ?thesis using key_keeps[OF d, where ch = "turn_key inp" and env = env and inp = inp and w = ?w] k by simp
qed

lemma loop_refines:
  assumes "editor_loop env inps s = (r, rest)" and "r = Next s' \<or> r = Leave s'"
  shows "editor_inv (fst s) \<Longrightarrow> on_char (fst s) \<Longrightarrow>
    utf8_stream (0 < ed_cursor (fst s)) (map in_key inps) \<Longrightarrow>
    (\<exists>n. zip_run (in_keys (take n inps)) (sides (fst s)) (sides (fst s')) \<and>
      (if r = Next s' then n = length inps else n + length rest + 1 = length inps))"
  using assms unfolding editor_loop_def
proof (induction inps arbitrary: s)
  case Nil
  then show ?case by (auto intro: zip_run_nil)
next
  case (Cons inp inps)
  note inv = Cons.prems(1) and on = Cons.prems(2)
  show ?case
  proof (cases "editor_step env inp s")
    case Undefined
    then show ?thesis using Cons.prems(4,5) by auto
  next
    case (Leave s1)
    then have "s1 = s'" "r = Leave s'" "rest = inps" using Cons.prems(4,5) by auto
    moreover have "sides (fst s1) = sides (fst s)"
      using editor_step_leaves[OF inv Leave] by (rule sides_cong)
    ultimately show ?thesis by (intro exI[of _ 0]) (simp add: zip_run_nil)
  next
    case (Next s1)
    have st: "zip_step (in_cols inp) (in_key inp) (sides (fst s)) (sides (fst s1))"
      using Cons.prems(3) by (intro turn_refines[OF inv on Next]) auto
    have on1: "on_char (fst s1)"
      using Cons.prems(3) by (intro cursor_on_character[OF inv on Next]) auto
    have inv1: "editor_inv (fst s1)"
      using editor_turn[OF inv, of env _ inp] editor_step_dated[of env inp s s1] Next
      by (fastforce simp: keeps_def)
    have str: "utf8_stream (0 < ed_cursor (fst s1)) (map in_key inps)"
      using Cons.prems(3) zip_step_stream[OF st] sides_start[OF inv] sides_start[OF inv1]
      by (auto intro: utf8_stream_mono)
    obtain n where n: "zip_run (in_keys (take n inps)) (sides (fst s1)) (sides (fst s'))"
      "if r = Next s' then n = length inps else n + length rest + 1 = length inps"
      using Cons.IH[OF inv1 on1 str] Cons.prems(4,5) Next by auto
    have "zip_run (in_keys (take (Suc n) (inp # inps))) (sides (fst s)) (sides (fst s'))"
      using zip_run_cons[OF st n(1)] by simp
    then show ?thesis using n(2) by (intro exI[of _ "Suc n"]) (simp split: if_splits)
  qed
qed

text \<open>
  C3. The editor is an editor of characters: open it with any text that starts with a whole character, and
  let the terminal send any keys in whole UTF-8 characters. Then the bytes in the buffer are always the
  characters a plain list of characters with a cursor in it would hold, where typing extends the list
  before the cursor, Backspace and Delete take one character off, Left and Right pass one, and Up, Down,
  Home and End go to the place of the wrapped layout they ask for; and the cursor is where its is. The
  key that leaves the editor changes nothing.
\<close>

theorem editor_refines_characters:
  assumes "editor_open inp i x t = Next st" and "in_calloc inp" and "starts_char (opened_text x)"
    and "utf8_stream (opened_text x \<noteq> []) (map in_key inps)"
    and "editor_loop env inps (st, w) = (r, rest)" and "r = Next s' \<or> r = Leave s'"
  shows "\<exists>n L R. zip_run (in_keys (take n inps)) (chars (opened_text x), []) (L, R) \<and>
    ed_text (fst s') = concat (L @ R) \<and> ed_cursor (fst s') = length (concat L) \<and>
    (if r = Next s' then n = length inps else n + length rest + 1 = length inps)"
proof -
  have o: "editor_inv st" "content st = (opened_text x @ [], length (opened_text x))"
    using editor_opened[OF assms(1,2)] by simp_all
  have on: "on_char st" using on_char_starts[OF o] assms(3) by (simp add: starts_char_def)
  have s: "sides st = (chars (opened_text x), [])" using sides_content[OF o(2)] by simp
  have "0 < ed_cursor st \<longleftrightarrow> opened_text x \<noteq> []" using o(2) by (simp add: content_def)
  then obtain n where n: "zip_run (in_keys (take n inps)) (sides st) (sides (fst s'))"
    "if r = Next s' then n = length inps else n + length rest + 1 = length inps"
    using loop_refines[OF assms(5,6)] o(1) on assms(4) by auto
  have "editor_inv (fst s')" using editor_loop_keeps[OF _ assms(5,6)] o(1) by (simp add: keeps_def)
  then have "ed_cursor (fst s') \<le> length (ed_text (fst s'))"
    using length_ed_text[of "fst s'"] by (simp add: editor_inv_def)
  moreover obtain L R where lr: "sides (fst s') = (L, R)" by force
  ultimately have "ed_text (fst s') = concat (L @ R)" "ed_cursor (fst s') = length (concat L)"
    by (auto simp: sides_def)
  moreover have "zip_run (in_keys (take n inps)) (chars (opened_text x), []) (L, R)" using n(1) s lr by simp
  ultimately show ?thesis using n(2) by blast
qed

theorem editor_refines_characters_witness:
  "\<exists>st s'. editor_open (demo_input KEY_ENTER) 7 (Some ''ab'') 100 = Next st \<and>
    editor_loop demo_env [demo_input (Byte (CHR ''x''))] (st, demo_world) = (Next s', []) \<and>
    ed_text (fst s') = ''abx''"
proof -
  obtain st where st: "editor_open (demo_input KEY_ENTER) 7 (Some ''ab'') 100 = Next st" "editor_inv st"
    "ed_stamp st = 100"
    by (rule editor_open_text[of "demo_input KEY_ENTER" _ 7 "''ab''" 100]) auto
  have r: "editor_ready demo_env (st, demo_world)" using st by (simp add: editor_ready_def)
  have t: "typed_byte (CHR ''x'')" by (simp add: typed_byte_def)
  then have "input_types (demo_input (Byte (CHR ''x''))) = Some (CHR ''x'')" by (simp add: input_types_def)
  then obtain s' where "editor_step demo_env (demo_input (Byte (CHR ''x''))) (st, demo_world) = Next s'"
    using editor_types_next[OF r] by blast
  then have s': "editor_loop demo_env [demo_input (Byte (CHR ''x''))] (st, demo_world) = (Next s', [])"
    by (simp add: editor_loop_def)
  have u: "\<not> u8_is_cont (CHR ''x'')" "\<not> u8_is_cont (CHR ''a'')" "\<not> u8_is_cont (CHR ''b'')"
    by (simp_all add: u8_is_cont_def)
  have "\<exists>n L R. zip_run (in_keys (take n [demo_input (Byte (CHR ''x''))])) (chars (opened_text (Some ''ab'')), []) (L, R) \<and>
    ed_text (fst s') = concat (L @ R) \<and> ed_cursor (fst s') = length (concat L) \<and>
    (if Next s' = Next s' then n = length [demo_input (Byte (CHR ''x''))]
     else n + length ([] :: ui_input list) + 1 = length [demo_input (Byte (CHR ''x''))])"
    by (rule editor_refines_characters[OF st(1) _ _ _ s'])
       (simp_all add: t u opened_text_def starts_char_def c_str_def)
  then obtain L R where "zip_run [(80, Byte (CHR ''x''))] ([''a'', ''b''], []) (L, R)" "ed_text (fst s') = concat (L @ R)"
    by (auto simp: opened_text_def c_str_def u)
  then have "ed_text (fst s') = ''abx''"
    using t u by (auto elim!: zip_run_consE zip_run_nilE zip_typedE)
  then show ?thesis using st(1) s' by blast
qed

end
