(* ===== verification/Screens.thy ===== *)
theory Screens
  imports Editor
begin

text \<open>
  The other screens of the client (\<open>client/ui.c\<close>): the entry viewer \<open>screen_view\<close>, the list
  \<open>screen_list\<close> with \<open>reload_entries\<close>, and \<open>ui_run\<close>. A screen that is opened from the list takes the
  inputs that follow; \<open>Next\<close> with no inputs left means that the program waits for a key.
\<close>

subsection \<open>The viewer\<close>

definition view_title :: "diary_entry \<Rightarrow> string \<Rightarrow> string" where
  "view_title e ts = snprintf 80 ('' Entry #'' @ show_int (de_id e) @ '' - '' @ ts @ '' '')"

definition view_text :: "diary_entry \<Rightarrow> bytes" where
  "view_text e = (case de_text e of None \<Rightarrow> [] | Some t \<Rightarrow> c_str t)"

definition view_bar :: "int \<Rightarrow> int \<Rightarrow> int \<Rightarrow> string" where
  "view_bar view_top text_rows vrows =
     ''[j/k or scroll] navigate  [Q/ESC] back  ('' @ show_int (view_top + 1) @ ''-'' @
     show_int (if view_top + text_rows < vrows then view_top + text_rows else vrows) @
     '' / '' @ show_int vrows @ '')''"

text \<open>The bottom line is printed last, so the cursor stays where the drawing left it.\<close>

definition view_frame :: "string \<Rightarrow> bytes \<Rightarrow> int \<Rightarrow> ui_input \<Rightarrow> int \<Rightarrow> frame \<Rightarrow> frame" where
  "view_frame title text vrows inp view_top fr = fr\<lparr>
     fr_header := title,
     fr_cells := draw_text text (length text) (in_rows inp) (in_cols inp) view_top,
     fr_bar := view_bar view_top (in_rows inp - 2) vrows,
     fr_marked := None\<rparr>"

definition view_wheel :: "int \<Rightarrow> int \<Rightarrow> mouse_event option \<Rightarrow> int \<Rightarrow> int" where
  "view_wheel text_rows vrows mev view_top =
     (case mev of
        None \<Rightarrow> view_top
      | Some ev \<Rightarrow>
          if me_button4 ev then
            (let vt = view_top - SCROLL_LINES in if vt < 0 then 0 else vt)
          else if me_button5 ev then
            (let vt = view_top + SCROLL_LINES;
                 vt = (if vt + text_rows > vrows then vrows - text_rows else vt)
             in if vt < 0 then 0 else vt)
          else view_top)"

definition view_turn ::
    "string \<Rightarrow> bytes \<Rightarrow> int \<Rightarrow> ui_input \<Rightarrow> int \<times> 'w world \<Rightarrow> (int \<times> 'w world) outcome" where
  "view_turn title text vrows inp s =
     (let (view_top, w) = s;
          text_rows = in_rows inp - 2;
          w = w\<lparr>wo_frame := view_frame title text vrows inp view_top (wo_frame w)\<rparr>;
          ch = in_key inp
      in
      if ch = Byte (CHR ''q'') \<or> ch = Byte (CHR ''Q'') \<or> ch = Byte (CHR 0x1B) then Leave (view_top, w)
      else if (ch = KEY_DOWN \<or> ch = Byte (CHR ''j'')) \<and> view_top + text_rows < vrows
      then Next (view_top + 1, w)
      else if (ch = KEY_UP \<or> ch = Byte (CHR ''k'')) \<and> view_top > 0 then Next (view_top - 1, w)
      else (case ch of KEY_MOUSE mev \<Rightarrow> Next (view_wheel text_rows vrows mev view_top, w)
            | _ \<Rightarrow> Next (view_top, w)))"

definition screen_view ::
    "'w ui_env \<Rightarrow> ui_input \<Rightarrow> diary_entry \<Rightarrow> ui_input list \<Rightarrow> 'w world \<Rightarrow>
     'w world outcome \<times> ui_input list" where
  "screen_view env inp e inps w =
     (case format_ts env (de_timestamp e) of
        None \<Rightarrow> (Undefined, inps)
      | Some ts \<Rightarrow>
          let text = view_text e;
              vrows = total_vrows text (length text) (in_cols inp);
              (r, rest) = run_turns (view_turn (view_title e ts) text vrows) inps (0, w)
          in (map_outcome snd r, rest))"

subsection \<open>The list\<close>

record list_screen =
  ls_entries :: "diary_entry list"
  ls_selected :: int
  ls_scroll :: int
  ls_status :: string

abbreviation ls_count :: "list_screen \<Rightarrow> int" where
  "ls_count st \<equiv> int (length (ls_entries st))"

definition reload_entries :: "'w ui_env \<Rightarrow> list_screen \<times> 'w world \<Rightarrow> list_screen \<times> 'w world" where
  "reload_entries env s =
     (let (st, w) = s; (r, net) = net_get_entries (ue_proto env) (wo_net w) in
      (case r of
         None \<Rightarrow> st\<lparr>ls_entries := [], ls_status := ''Error fetching entries.''\<rparr>
       | Some es \<Rightarrow> st\<lparr>ls_entries := es\<rparr>, w\<lparr>wo_net := net\<rparr>))"

definition list_scroll :: "ui_input \<Rightarrow> list_screen \<Rightarrow> list_screen" where
  "list_scroll inp st =
     (let list_rows = in_rows inp - 3;
          sc = ls_scroll st;
          sc = (if ls_selected st < sc then ls_selected st else sc);
          sc = (if ls_selected st \<ge> sc + list_rows then ls_selected st - list_rows + 1 else sc);
          sc = (if sc < 0 then 0 else sc)
      in st\<lparr>ls_scroll := sc\<rparr>)"

text \<open>\<open>char preview[64]\<close>: the first line of the text, at most 60 bytes of it.\<close>

definition preview :: "bytes option \<Rightarrow> string" where
  "preview text =
     (case text of
        None \<Rightarrow> []
      | Some t \<Rightarrow>
          let plen = (case strchr (c_str t) (CHR 0x0A) of Some k \<Rightarrow> k | None \<Rightarrow> length (c_str t));
              plen = (if plen > 60 then 60 else plen)
          in take plen (c_str t))"

text \<open>The format \<open>"  %-16s  %s"\<close>.\<close>

definition list_line :: "diary_entry \<Rightarrow> string \<Rightarrow> string" where
  "list_line e ts = ''  '' @ ts @ replicate (16 - length ts) (CHR '' '') @ ''  '' @ preview (de_text e)"

fun list_rows_from :: "'w ui_env \<Rightarrow> int \<Rightarrow> diary_entry list \<Rightarrow> cell list option" where
  "list_rows_from env row [] = Some []"
| "list_rows_from env row (e # es) =
     (case format_ts env (de_timestamp e) of
        None \<Rightarrow> None
      | Some ts \<Rightarrow> map_option ((#) (row, 1, list_line e ts)) (list_rows_from env (row + 1) es))"

definition list_help :: string where
  "list_help = ''[N]ew  [E]dit  [Enter]Read  [D]elete  [R]eload  [Q]uit''"

text \<open>
  The rows \<open>i < list_rows\<close> with \<open>i + scroll < count\<close>, drawn from row 2; the lines \<open>draw_hline\<close> draws are
  left out. \<open>None\<close> is undefined behaviour of \<open>format_ts\<close>.
\<close>

definition list_frame :: "'w ui_env \<Rightarrow> ui_input \<Rightarrow> list_screen \<Rightarrow> frame \<Rightarrow> frame option" where
  "list_frame env inp st fr =
     map_option (\<lambda>cells. fr\<lparr>
         fr_header := '' DIARY '',
         fr_cells := (if ls_entries st = []
           then [(in_rows inp div 2, (in_cols inp - 30) div 2, ''No entries yet. Press [N] to create one.'')]
           else cells),
         fr_bar := (if ls_status st \<noteq> [] then ls_status st else list_help),
         fr_marked := (if 0 \<le> ls_selected st - ls_scroll st \<and> ls_selected st - ls_scroll st < in_rows inp - 3 \<and>
             ls_selected st < ls_count st
           then Some (2 + ls_selected st - ls_scroll st) else None)\<rparr>)
       (list_rows_from env 2 (take (nat (in_rows inp - 3)) (drop (nat (ls_scroll st)) (ls_entries st))))"

text \<open>\<open>entries[selected]\<close>, with \<open>None\<close> out of bounds.\<close>

definition selected_entry :: "list_screen \<Rightarrow> diary_entry option" where
  "selected_entry st =
     (if 0 \<le> ls_selected st \<and> ls_selected st < ls_count st
      then Some (ls_entries st ! nat (ls_selected st)) else None)"

definition clamp_selected :: "list_screen \<Rightarrow> list_screen" where
  "clamp_selected st =
     (if ls_selected st \<ge> ls_count st
      then st\<lparr>ls_selected := (if ls_count st > 0 then ls_count st - 1 else 0)\<rparr> else st)"

definition list_wheel :: "mouse_event option \<Rightarrow> list_screen \<Rightarrow> list_screen" where
  "list_wheel mev st =
     (case mev of
        None \<Rightarrow> st
      | Some ev \<Rightarrow>
          if me_button4 ev \<and> ls_selected st > 0 then st\<lparr>ls_selected := ls_selected st - 1\<rparr>
          else if me_button5 ev \<and> ls_selected st < ls_count st - 1
          then st\<lparr>ls_selected := ls_selected st + 1\<rparr>
          else st)"

text \<open>
  A screen called from the list: when it is left, \<open>k\<close> goes on in the list; when the inputs are used up
  inside it, the program waits there.
\<close>

definition after_screen ::
    "list_screen \<Rightarrow> ('w world \<Rightarrow> list_screen \<times> 'w world) \<Rightarrow> 'w world outcome \<times> ui_input list \<Rightarrow>
     (list_screen \<times> 'w world) outcome \<times> ui_input list" where
  "after_screen st k r =
     (case r of
        (Leave w, rest) \<Rightarrow> (Next (k w), rest)
      | (Next w, rest) \<Rightarrow> (Next (st, w), [])
      | (Undefined, rest) \<Rightarrow> (Undefined, rest))"

definition list_new ::
    "'w ui_env \<Rightarrow> ui_input \<Rightarrow> ui_input list \<Rightarrow> list_screen \<times> 'w world \<Rightarrow>
     (list_screen \<times> 'w world) outcome \<times> ui_input list" where
  "list_new env inp inps s =
     after_screen (fst s)
       (\<lambda>w. let (st, w) = reload_entries env (fst s, w) in
          (st\<lparr>ls_selected := (if ls_count st > 0 then ls_count st - 1 else 0)\<rparr>, w))
       (screen_editor env inp 0 None (if ue_entry_at env > 0 then ue_entry_at env else in_now inp)
          inps (snd s))"

definition list_edit ::
    "'w ui_env \<Rightarrow> ui_input \<Rightarrow> ui_input list \<Rightarrow> list_screen \<times> 'w world \<Rightarrow>
     (list_screen \<times> 'w world) outcome \<times> ui_input list" where
  "list_edit env inp inps s =
     (if ls_count (fst s) > 0 then
        (case selected_entry (fst s) of
           None \<Rightarrow> (Undefined, inps)
         | Some e \<Rightarrow> after_screen (fst s) (\<lambda>w. reload_entries env (fst s, w))
             (screen_editor env inp (de_id e) (de_text e) (de_timestamp e) inps (snd s)))
      else (Next s, inps))"

definition list_read ::
    "'w ui_env \<Rightarrow> ui_input \<Rightarrow> ui_input list \<Rightarrow> list_screen \<times> 'w world \<Rightarrow>
     (list_screen \<times> 'w world) outcome \<times> ui_input list" where
  "list_read env inp inps s =
     (if ls_count (fst s) > 0 then
        (case selected_entry (fst s) of
           None \<Rightarrow> (Undefined, inps)
         | Some e \<Rightarrow> after_screen (fst s) (\<lambda>w. (fst s, w)) (screen_view env inp e inps (snd s)))
      else (Next s, inps))"

text \<open>The delete branch puts a question into the bottom line and asks for one more key.\<close>

definition list_ask :: "'w world \<Rightarrow> 'w world" where
  "list_ask w = w\<lparr>wo_frame := (wo_frame w)\<lparr>fr_bar := ''Confirm delete: [Y]es  [N/ESC] cancel''\<rparr>\<rparr>"

lemma list_ask_simps [simp]: "wo_net (list_ask w) = wo_net w" "wo_disk (list_ask w) = wo_disk w"
  by (simp_all add: list_ask_def)

definition list_delete ::
    "'w ui_env \<Rightarrow> ui_input list \<Rightarrow> list_screen \<times> 'w world \<Rightarrow>
     (list_screen \<times> 'w world) outcome \<times> ui_input list" where
  "list_delete env inps s =
     (let (st, w) = s in
      if ls_count st > 0 then
        (case selected_entry st of
           None \<Rightarrow> (Undefined, inps)
         | Some e \<Rightarrow>
             let w = list_ask w in
             (case inps of
                [] \<Rightarrow> (Next (st, w), [])
              | conf # rest \<Rightarrow>
                  if in_key conf = Byte (CHR ''y'') \<or> in_key conf = Byte (CHR ''Y'') then
                    let (rc, net) = net_delete_entry (ue_proto env) (de_id e) (wo_net w);
                        st = st\<lparr>ls_status := (if rc = 0 then ''Entry deleted.'' else ''Error deleting entry.'')\<rparr>;
                        (st, w) = reload_entries env (st, w\<lparr>wo_net := net\<rparr>)
                    in (Next (clamp_selected st, w), rest)
                  else (Next (st, w), rest)))
      else (Next (st, w), inps))"

definition list_reload :: "'w ui_env \<Rightarrow> list_screen \<times> 'w world \<Rightarrow> list_screen \<times> 'w world" where
  "list_reload env s =
     (let (st, w) = reload_entries env s; st = clamp_selected st in
      (if ls_status st = [] then st\<lparr>ls_status := ''Reloaded.''\<rparr> else st, w))"

definition list_key ::
    "'w ui_env \<Rightarrow> ui_input \<Rightarrow> ui_input list \<Rightarrow> list_screen \<times> 'w world \<Rightarrow>
     (list_screen \<times> 'w world) outcome \<times> ui_input list" where
  "list_key env inp inps s =
     (let (st, w) = s; ch = in_key inp in
      if ch = Byte (CHR ''q'') \<or> ch = Byte (CHR ''Q'') then (Leave (st, w), inps)
      else if (ch = KEY_UP \<or> ch = Byte (CHR ''k'')) \<and> ls_selected st > 0
      then (Next (st\<lparr>ls_selected := ls_selected st - 1\<rparr>, w), inps)
      else if (ch = KEY_DOWN \<or> ch = Byte (CHR ''j'')) \<and> ls_selected st < ls_count st - 1
      then (Next (st\<lparr>ls_selected := ls_selected st + 1\<rparr>, w), inps)
      else
        (case ch of
           KEY_MOUSE mev \<Rightarrow> (Next (list_wheel mev st, w), inps)
         | KEY_ENTER \<Rightarrow> list_read env inp inps (st, w)
         | Byte c \<Rightarrow>
             if c = CHR 0x0A then list_read env inp inps (st, w)
             else if c = CHR ''n'' \<or> c = CHR ''N'' then list_new env inp inps (st, w)
             else if c = CHR ''e'' \<or> c = CHR ''E'' then list_edit env inp inps (st, w)
             else if c = CHR ''d'' \<or> c = CHR ''D'' then list_delete env inps (st, w)
             else if c = CHR ''r'' \<or> c = CHR ''R'' then (Next (list_reload env (st, w)), inps)
             else (Next (st, w), inps)
         | _ \<Rightarrow> (Next (st, w), inps)))"

definition list_turn ::
    "'w ui_env \<Rightarrow> ui_input \<Rightarrow> ui_input list \<Rightarrow> list_screen \<times> 'w world \<Rightarrow>
     (list_screen \<times> 'w world) outcome \<times> ui_input list" where
  "list_turn env inp inps s =
     (let (st, w) = s; st = list_scroll inp st in
      case list_frame env inp st (wo_frame w) of
        None \<Rightarrow> (Undefined, inps)
      | Some fr \<Rightarrow> list_key env inp inps (st\<lparr>ls_status := []\<rparr>, w\<lparr>wo_frame := fr\<rparr>))"

lemma screen_view_rest: "length (snd (screen_view env inp e inps w)) \<le> length inps"
  by (auto simp: screen_view_def Let_def split: option.split prod.split)
     (metis run_turns_rest snd_conv)

lemma screen_editor_rest: "length (snd (screen_editor env inp i x t inps w)) \<le> length inps"
  by (auto simp: screen_editor_def editor_loop_def split: outcome.split prod.split)
     (metis run_turns_rest snd_conv)+

lemma after_screen_rest: "length (snd r) \<le> n \<Longrightarrow> length (snd (after_screen st k r)) \<le> n"
  by (auto simp: after_screen_def split: outcome.split prod.split)

lemma list_turn_rest: "length (snd (list_turn env inp inps s)) \<le> length inps"
  by (auto simp: list_turn_def list_key_def list_read_def list_new_def list_edit_def list_delete_def Let_def
      after_screen_rest screen_view_rest screen_editor_rest
      split: option.split prod.split key.split list.split)

function list_loop ::
    "'w ui_env \<Rightarrow> ui_input list \<Rightarrow> list_screen \<times> 'w world \<Rightarrow> (list_screen \<times> 'w world) outcome" where
  "list_loop env [] s = Next s"
| "list_loop env (inp # inps) s =
     (case list_turn env inp inps s of
        (Next s', rest) \<Rightarrow> list_loop env rest s'
      | (Leave s', rest) \<Rightarrow> Leave s'
      | (Undefined, rest) \<Rightarrow> Undefined)"
  by pat_completeness auto
termination
proof (relation "measure (\<lambda>(env, inps, s). length inps)")
  fix env :: "'w ui_env" and inp inps s x y x1
  assume "(x, y) = list_turn env inp inps s"
  then have "length y \<le> length inps" using list_turn_rest[of env inp inps s] by (metis snd_conv)
  then show "((env, y, x1), env, inp # inps, s) \<in> measure (\<lambda>(env, inps, s). length inps)" by simp
qed simp

definition screen_list :: "'w ui_env \<Rightarrow> ui_input list \<Rightarrow> 'w world \<Rightarrow> (list_screen \<times> 'w world) outcome" where
  "screen_list env inps w =
     list_loop env inps
       (reload_entries env (\<lparr>ls_entries = [], ls_selected = 0, ls_scroll = 0, ls_status = []\<rparr>, w))"

text \<open>\<open>ui_run\<close> stores \<open>entry_at\<close> and runs the list between the set-up and the end of ncurses.\<close>

definition ui_run :: "'w ui_env \<Rightarrow> int \<Rightarrow> ui_input list \<Rightarrow> 'w world \<Rightarrow> 'w world outcome" where
  "ui_run env entry_at inps w = map_outcome snd (screen_list (env\<lparr>ue_entry_at := entry_at\<rparr>) inps w)"

end
