(* ===== verification/ScreensClaims.thy ===== *)
theory ScreensClaims
  imports Screens EditorSaving
begin

text \<open>
  The properties of the viewer and of the list: where the view and the selection can be, what a deletion
  does, and where the selection goes astray.
\<close>

subsection \<open>The viewer\<close>

definition view_inv :: "int \<Rightarrow> int \<Rightarrow> int \<times> 'w world \<Rightarrow> bool" where
  "view_inv rows vrows s \<longleftrightarrow> 0 \<le> fst s \<and> fst s \<le> max 0 (vrows - (rows - 2))"

lemma view_wheel_inv:
  "0 \<le> vt \<Longrightarrow> vt \<le> max 0 (vrows - text_rows) \<Longrightarrow>
   0 \<le> view_wheel text_rows vrows mev vt \<and> view_wheel text_rows vrows mev vt \<le> max 0 (vrows - text_rows)"
  by (auto simp: view_wheel_def SCROLL_LINES_def Let_def split: option.split)

lemma view_turn_inv:
  assumes "in_rows inp = rows" and "view_inv rows vrows s"
    and "view_turn title text vrows inp s = Next s' \<or> view_turn title text vrows inp s = Leave s'"
  shows "view_inv rows vrows s'"
  using assms view_wheel_inv[of "fst s" vrows "rows - 2"]
  by (cases s) (auto simp: view_turn_def view_inv_def Let_def split: if_splits key.splits)

text \<open>
  C35. The viewer never scrolls past the text: in a window that keeps its height, after any keys and wheel
  events the first shown row is not negative and the last row of the text is not above the bottom of a
  window that the text fills.
\<close>

theorem viewer_stays_on_text:
  assumes "\<forall>inp \<in> set inps. in_rows inp = rows"
    and "run_turns (view_turn title text vrows) inps (0, w) = (r, rest)" and "r = Next s' \<or> r = Leave s'"
  shows "0 \<le> fst s' \<and> fst s' \<le> max 0 (vrows - (rows - 2))"
proof -
  have run: "view_inv rows vrows s' \<or> \<not> (r = Next s' \<or> r = Leave s')"
    if "view_inv rows vrows s" "\<forall>inp \<in> set inps. in_rows inp = rows"
      "run_turns (view_turn title text vrows) inps s = (r, rest)" for s
    using that
  proof (induction inps arbitrary: s)
    case (Cons inp inps)
    show ?case
    proof (cases "view_turn title text vrows inp s")
      case (Next s1)
      then have "view_inv rows vrows s1"
        using view_turn_inv[of inp rows vrows s title "text" s1] Cons.prems by simp
      then show ?thesis using Cons.IH[of s1] Cons.prems Next by simp
    next
      case (Leave s1)
      then have "view_inv rows vrows s1"
        using view_turn_inv[of inp rows vrows s title "text" s1] Cons.prems by simp
      then show ?thesis using Cons.prems Leave by auto
    next
      case Undefined
      then show ?thesis using Cons.prems by auto
    qed
  qed auto
  show ?thesis using run[of "(0, w)"] assms by (auto simp: view_inv_def)
qed

theorem viewer_stays_on_text_witness:
  "fst (case fst (run_turns (view_turn [] [] 40) (replicate 9 (demo_input (KEY_MOUSE
      (Some \<lparr>me_button4 = False, me_button5 = True\<rparr>)))) (0, demo_world)) of Next s \<Rightarrow> s | Leave s \<Rightarrow> s) \<le> 18"
proof -
  let ?i = "demo_input (KEY_MOUSE (Some \<lparr>me_button4 = False, me_button5 = True\<rparr>))"
  have "\<exists>s'. run_turns (view_turn [] [] 40) (replicate n ?i) s = (Next s', [])"
    for n and s :: "int \<times> ref_db wire world"
    by (induction n arbitrary: s) (auto simp: view_turn_def Let_def split: prod.split)
  then obtain s' where s': "run_turns (view_turn [] [] 40) (replicate 9 ?i) (0, demo_world) = (Next s', [])"
    by blast
  have "0 \<le> fst s' \<and> fst s' \<le> max 0 (40 - (24 - 2))"
    by (rule viewer_stays_on_text[OF _ s']) simp_all
  then show ?thesis using s' by (simp del: replicate_Suc)
qed

subsection \<open>The list\<close>

definition sel_inv :: "list_screen \<Rightarrow> bool" where
  "sel_inv st \<longleftrightarrow> 0 \<le> ls_selected st \<and> (0 < ls_count st \<longrightarrow> ls_selected st < ls_count st)"

lemma list_scroll_simps [simp]:
  "ls_entries (list_scroll inp st) = ls_entries st" "ls_selected (list_scroll inp st) = ls_selected st"
  "ls_status (list_scroll inp st) = ls_status st"
  by (simp_all add: list_scroll_def Let_def)

lemma reload_selected [simp]: "ls_selected (fst (reload_entries env s)) = ls_selected (fst s)"
  by (cases s) (auto simp: reload_entries_def split: prod.split option.split)

lemma clamp_selected_inv: "0 \<le> ls_selected st \<Longrightarrow> sel_inv (clamp_selected st)"
  by (auto simp: sel_inv_def clamp_selected_def)

lemma list_wheel_inv: "sel_inv st \<Longrightarrow> sel_inv (list_wheel mev st)"
  by (auto simp: sel_inv_def list_wheel_def split: option.split)

definition edits :: "key \<Rightarrow> bool" where
  "edits ch \<longleftrightarrow> ch = Byte (CHR ''e'') \<or> ch = Byte (CHR ''E'')"

lemma list_turn_key:
  assumes "list_turn env inp inps s = (Next s', rest)"
  obtains fr where "list_frame env inp (list_scroll inp (fst s)) (wo_frame (snd s)) = Some fr"
    and "list_key env inp inps ((list_scroll inp (fst s))\<lparr>ls_status := []\<rparr>, (snd s)\<lparr>wo_frame := fr\<rparr>) =
      (Next s', rest)"
  using assms that by (cases s) (auto simp: list_turn_def Let_def split: option.splits)

lemma after_screen_next:
  "after_screen st k r = (Next s', rest) \<Longrightarrow>
   (\<exists>w. r = (Leave w, rest) \<and> s' = k w) \<or> (\<exists>w. s' = (st, w) \<and> rest = [])"
  by (auto simp: after_screen_def split: outcome.splits prod.splits)

text \<open>What a key does in the list: one of the branches of the code.\<close>

lemma list_key_cases:
  obtains (quit) "list_key env inp inps (st, w) = (Leave (st, w), inps)"
  | (move) st' where "list_key env inp inps (st, w) = (Next (st', w), inps)" "sel_inv st \<longrightarrow> sel_inv st'"
      "ls_entries st' = ls_entries st"
  | (read) "list_key env inp inps (st, w) = list_read env inp inps (st, w)"
  | (new) "in_key inp = Byte (CHR ''n'') \<or> in_key inp = Byte (CHR ''N'')"
      "list_key env inp inps (st, w) = list_new env inp inps (st, w)"
  | (edit) "edits (in_key inp)" "list_key env inp inps (st, w) = list_edit env inp inps (st, w)"
  | (delete) "in_key inp = Byte (CHR ''d'') \<or> in_key inp = Byte (CHR ''D'')"
      "list_key env inp inps (st, w) = list_delete env inps (st, w)"
  | (reload) "list_key env inp inps (st, w) = (Next (list_reload env (st, w)), inps)"
proof -
  let ?ch = "in_key inp"
  consider (m1) "(?ch = KEY_UP \<or> ?ch = Byte (CHR ''k'')) \<and> ls_selected st > 0"
    | (m2) "(?ch = KEY_DOWN \<or> ?ch = Byte (CHR ''j'')) \<and> ls_selected st < ls_count st - 1"
    | (other) "\<not> ((?ch = KEY_UP \<or> ?ch = Byte (CHR ''k'')) \<and> ls_selected st > 0)"
      "\<not> ((?ch = KEY_DOWN \<or> ?ch = Byte (CHR ''j'')) \<and> ls_selected st < ls_count st - 1)" by argo
  then show thesis
  proof cases
    case m1
    then have "sel_inv st \<longrightarrow> sel_inv (st\<lparr>ls_selected := ls_selected st - 1\<rparr>)" by (auto simp: sel_inv_def)
    then show thesis
      using m1 move[of "st\<lparr>ls_selected := ls_selected st - 1\<rparr>"] by (auto simp: list_key_def Let_def)
  next
    case m2
    then have "sel_inv st \<longrightarrow> sel_inv (st\<lparr>ls_selected := ls_selected st + 1\<rparr>)" by (auto simp: sel_inv_def)
    then show thesis
      using m2 move[of "st\<lparr>ls_selected := ls_selected st + 1\<rparr>"] by (auto simp: list_key_def Let_def)
  next
    case other
    have wheel: "ls_entries (list_wheel mev st) = ls_entries st" for mev
      by (simp add: list_wheel_def split: option.split)
    show thesis
    proof (cases ?ch)
      case (Byte c)
      have eq: "list_key env inp inps (st, w) = (if c = CHR ''q'' \<or> c = CHR ''Q'' then (Leave (st, w), inps)
          else if c = CHR 0x0A then list_read env inp inps (st, w)
          else if c = CHR ''n'' \<or> c = CHR ''N'' then list_new env inp inps (st, w)
          else if c = CHR ''e'' \<or> c = CHR ''E'' then list_edit env inp inps (st, w)
          else if c = CHR ''d'' \<or> c = CHR ''D'' then list_delete env inps (st, w)
          else if c = CHR ''r'' \<or> c = CHR ''R'' then (Next (list_reload env (st, w)), inps)
          else (Next (st, w), inps))"
        using other unfolding list_key_def Byte by auto
      consider "c = CHR ''q'' \<or> c = CHR ''Q''" | "c = CHR 0x0A" | "c = CHR ''n'' \<or> c = CHR ''N''"
        | "c = CHR ''e'' \<or> c = CHR ''E''" | "c = CHR ''d'' \<or> c = CHR ''D''"
        | "list_key env inp inps (st, w) = (Next (list_reload env (st, w)), inps)"
        | "list_key env inp inps (st, w) = (Next (st, w), inps)"
        using eq by argo
      then show thesis
      proof cases
        case 1
        then show thesis using eq quit by auto
      next
        case 2
        then show thesis using eq read by simp
      next
        case 3
        then show thesis using eq new Byte by auto
      next
        case 4
        then show thesis using eq edit Byte by (auto simp: edits_def)
      next
        case 5
        then show thesis using eq delete Byte by auto
      next
        case 6
        then show thesis by (rule reload)
      next
        case 7
        then show thesis using move[of st] by simp
      qed
    next
      case (KEY_MOUSE mev)
      then show thesis
        using move[of "list_wheel mev st"] list_wheel_inv[of st mev] wheel
        by (simp add: list_key_def Let_def)
    next
      case KEY_ENTER
      then show thesis using read by (simp add: list_key_def Let_def)
    qed (use other move[of st] in \<open>simp_all add: list_key_def Let_def\<close>)
  qed
qed

lemma list_key_next:
  assumes "list_key env inp inps (st, w) = (Next s', rest)"
  obtains (move) st' where "s' = (st', w)" "sel_inv st \<longrightarrow> sel_inv st'" "ls_entries st' = ls_entries st" "rest = inps"
  | (read) "list_read env inp inps (st, w) = (Next s', rest)"
  | (new) "in_key inp = Byte (CHR ''n'') \<or> in_key inp = Byte (CHR ''N'')"
      "list_new env inp inps (st, w) = (Next s', rest)"
  | (edit) "edits (in_key inp)" "list_edit env inp inps (st, w) = (Next s', rest)"
  | (delete) "in_key inp = Byte (CHR ''d'') \<or> in_key inp = Byte (CHR ''D'')"
      "list_delete env inps (st, w) = (Next s', rest)"
  | (reload) "s' = list_reload env (st, w)" "rest = inps"
  using assms by (cases rule: list_key_cases[of env inp inps st w]) auto

lemma list_delete_inv:
  assumes "list_delete env inps (st, w) = (Next s', rest)" and "sel_inv st"
  shows "sel_inv (fst s')"
proof (cases "ls_count st > 0")
  case False
  then show ?thesis using assms by (auto simp: list_delete_def Let_def)
next
  case True
  then obtain e where e: "selected_entry st = Some e"
    using assms by (cases "selected_entry st") (auto simp: list_delete_def Let_def)
  show ?thesis
  proof (cases inps)
    case Nil
    then show ?thesis using assms True e by (auto simp: list_delete_def Let_def)
  next
    case (Cons conf more)
    obtain rc net where d: "net_delete_entry (ue_proto env) (de_id e) (wo_net w) = (rc, net)" by force
    define st1 where "st1 = st\<lparr>ls_status := (if rc = 0 then ''Entry deleted.'' else ''Error deleting entry.'')\<rparr>"
    obtain st2 w2 where r: "reload_entries env (st1, (list_ask w)\<lparr>wo_net := net\<rparr>) = (st2, w2)" by force
    have "ls_selected st2 = ls_selected st"
      using reload_selected[of env "(st1, (list_ask w)\<lparr>wo_net := net\<rparr>)"] unfolding r by (simp add: st1_def)
    then have "sel_inv (clamp_selected st2)"
      using assms(2) clamp_selected_inv[of st2] by (simp add: sel_inv_def)
    moreover have "s' = (clamp_selected st2, w2) \<or> s' = (st, list_ask w)"
      using assms(1) True e Cons d r unfolding st1_def
      by (auto simp: list_delete_def Let_def split: if_splits)
    ultimately show ?thesis using assms(2) by auto
  qed
qed

lemma list_key_inv:
  assumes "sel_inv (fst s)" and "\<not> edits (in_key inp)" and "list_key env inp inps s = (Next s', rest)"
  shows "sel_inv (fst s')"
proof -
  obtain st w where s: "s = (st, w)" by force
  have new: "sel_inv (fst s')" if "list_new env inp inps (st, w) = (Next s', rest)"
    using after_screen_next[OF that[unfolded list_new_def]]
  proof
    assume "\<exists>w'. s' = (fst (st, w), w') \<and> rest = []"
    then show ?thesis using assms(1) s by auto
  next
    assume "\<exists>w'. screen_editor env inp 0 None (if ue_entry_at env > 0 then ue_entry_at env else in_now inp)
        inps (snd (st, w)) = (Leave w', rest) \<and> s' = (let (st, w) = reload_entries env (fst (st, w), w') in
          (st\<lparr>ls_selected := (if ls_count st > 0 then ls_count st - 1 else 0)\<rparr>, w))"
    then obtain w' where w': "s' = (let (st, w) = reload_entries env (st, w') in
          (st\<lparr>ls_selected := (if ls_count st > 0 then ls_count st - 1 else 0)\<rparr>, w))" by auto
    obtain st2 w2 where "reload_entries env (st, w') = (st2, w2)" by force
    then have "s' = (st2\<lparr>ls_selected := (if ls_count st2 > 0 then ls_count st2 - 1 else 0)\<rparr>, w2)"
      using w' by simp
    then show ?thesis by (simp add: sel_inv_def)
  qed
  have rd: "sel_inv (fst s')" if "list_read env inp inps (st, w) = (Next s', rest)"
    using that assms(1) s
    by (auto simp: list_read_def split: option.splits if_splits dest!: after_screen_next)
  have del: "sel_inv (fst s')" if "list_delete env inps (st, w) = (Next s', rest)"
    using list_delete_inv[OF that] assms(1) s by simp
  have rel: "sel_inv (fst (list_reload env (st, w)))"
    using clamp_selected_inv[of "fst (reload_entries env (st, w))"] assms(1) s
    by (auto simp: list_reload_def sel_inv_def Let_def split: prod.splits)
  have "list_key env inp inps (st, w) = (Next s', rest)" using assms(3) s by simp
  then show ?thesis
  proof (cases rule: list_key_next)
    case (move st')
    then show ?thesis using assms(1) s by simp
  next
    case edit
    then show ?thesis using assms(2) by simp
  next
    case reload
    then show ?thesis using rel by simp
  qed (use rd new del in blast)+
qed

lemma list_edit_next:
  "list_edit env inp inps s = (Next s', rest) \<Longrightarrow> ls_selected (fst s') = ls_selected (fst s)"
  by (auto simp: list_edit_def split: if_splits option.splits dest!: after_screen_next)

text \<open>
  C26. The selection stays inside the list: a turn that goes on keeps \<open>selected\<close> an index of the list (or
  0 or more when the list is empty), so \<open>entries[selected]\<close> is in bounds wherever it is read, for every key
  but E, and for E too when the list did not shrink meanwhile.
\<close>

theorem selection_in_bounds:
  assumes "sel_inv (fst s)" and "list_turn env inp inps s = (Next s', rest)"
    and "edits (in_key inp) \<Longrightarrow> ls_count (fst s) \<le> ls_count (fst s')"
  shows "sel_inv (fst s') \<and> (0 < ls_count (fst s') \<longrightarrow> selected_entry (fst s') \<noteq> None)"
proof -
  obtain fr where k: "list_key env inp inps ((list_scroll inp (fst s))\<lparr>ls_status := []\<rparr>, (snd s)\<lparr>wo_frame := fr\<rparr>) =
      (Next s', rest)"
    using list_turn_key[OF assms(2)] .
  have i: "sel_inv ((list_scroll inp (fst s))\<lparr>ls_status := []\<rparr>)" using assms(1) by (simp add: sel_inv_def)
  have "sel_inv (fst s')"
  proof (cases "edits (in_key inp)")
    case False
    then show ?thesis using list_key_inv[OF _ _ k] i by simp
  next
    case True
    then have e: "list_edit env inp inps ((list_scroll inp (fst s))\<lparr>ls_status := []\<rparr>, (snd s)\<lparr>wo_frame := fr\<rparr>) =
        (Next s', rest)"
      using k by (auto simp: list_key_def edits_def Let_def)
    have "ls_selected (fst s') = ls_selected (fst s)" using list_edit_next[OF e] by simp
    then show ?thesis
      using assms(1,3) True e by (auto simp: sel_inv_def list_edit_def split: if_splits)
  qed
  then show ?thesis by (auto simp: sel_inv_def selected_entry_def)
qed

definition demo_entries :: "diary_entry list" where
  "demo_entries = [\<lparr>de_id = 9, de_timestamp = 300, de_text = Some ''nine''\<rparr>,
     \<lparr>de_id = 4, de_timestamp = 200, de_text = Some ''four''\<rparr>,
     \<lparr>de_id = 1, de_timestamp = 100, de_text = Some ''one''\<rparr>]"

definition demo_list :: list_screen where
  "demo_list = \<lparr>ls_entries = demo_entries, ls_selected = 2, ls_scroll = 0, ls_status = []\<rparr>"

lemma demo_list_frame:
  "\<exists>fr'. list_frame demo_env (demo_input k) (list_scroll (demo_input k) demo_list) fr = Some fr'"
  by (simp add: list_frame_def list_scroll_def demo_list_def demo_entries_def demo_dated
      numeral_eq_Suc Let_def)

theorem selection_in_bounds_witness:
  "\<exists>s' rest. list_turn demo_env (demo_input KEY_UP) [] (demo_list, demo_world) = (Next s', rest) \<and>
    selected_entry (fst s') \<noteq> None"
proof -
  obtain s' rest where t: "list_turn demo_env (demo_input KEY_UP) [] (demo_list, demo_world) = (Next s', rest)"
    and e: "ls_entries (fst s') = demo_entries"
    using demo_list_frame[of KEY_UP "wo_frame demo_world"]
    by (auto simp: list_turn_def list_key_def demo_list_def Let_def)
  from selection_in_bounds[OF _ t] e show ?thesis
    using t by (auto simp: sel_inv_def demo_list_def demo_entries_def edits_def)
qed

lemma list_rows_shown:
  "\<forall>e \<in> set es. format_ts env (de_timestamp e) \<noteq> None \<Longrightarrow> list_rows_from env row es \<noteq> None"
  by (induction es arbitrary: row) auto

lemma list_frame_shown:
  assumes "\<forall>e \<in> set (ls_entries st). format_ts env (de_timestamp e) \<noteq> None"
  shows "\<exists>fr'. list_frame env inp st fr = Some fr'"
proof -
  have "list_rows_from env 2 (take (nat (in_rows inp - 3)) (drop (nat (ls_scroll st)) (ls_entries st))) \<noteq> None"
    using assms by (intro list_rows_shown) (auto dest: in_set_takeD in_set_dropD)
  then show ?thesis by (auto simp: list_frame_def)
qed

lemma list_frame_mono:
  assumes "list_turn env inp inps s = (r, rest)" and "r \<noteq> Undefined"
  obtains fr where "list_frame env inp (list_scroll inp (fst s)) (wo_frame (snd s)) = Some fr"
    and "list_key env inp inps ((list_scroll inp (fst s))\<lparr>ls_status := []\<rparr>, (snd s)\<lparr>wo_frame := fr\<rparr>) = (r, rest)"
  using assms that by (cases s) (auto simp: list_turn_def Let_def split: option.splits)

lemma list_key_open:
  "in_key inp = KEY_ENTER \<or> in_key inp = Byte (CHR 0x0A) \<Longrightarrow> list_key env inp inps s = list_read env inp inps s"
  "edits (in_key inp) \<Longrightarrow> list_key env inp inps s = list_edit env inp inps s"
  "in_key inp = Byte (CHR ''d'') \<or> in_key inp = Byte (CHR ''D'') \<Longrightarrow>
   list_key env inp inps s = list_delete env inps s"
  "in_key inp = Byte (CHR ''n'') \<or> in_key inp = Byte (CHR ''N'') \<Longrightarrow>
   list_key env inp inps s = list_new env inp inps s"
  by (auto simp: list_key_def edits_def Let_def split: prod.split)

text \<open>
  C27. After E the selection is not brought back into a list that shrank meanwhile: when entries come back,
  but no more than \<open>selected\<close>, the selection stays, and Enter (the function key or a newline), E or D as the
  next key reads \<open>entries[selected]\<close> out of bounds.
\<close>

theorem edit_leaves_stale_selection:
  assumes "edits (in_key inp)" and "list_turn env inp inps s = (Next s', rest)"
    and "0 < ls_count (fst s')" and "ls_count (fst s') \<le> ls_selected (fst s)"
    and "in_key inp2 = KEY_ENTER \<or> in_key inp2 = Byte (CHR 0x0A) \<or> edits (in_key inp2) \<or>
      in_key inp2 = Byte (CHR ''d'') \<or> in_key inp2 = Byte (CHR ''D'')"
  shows "ls_selected (fst s') = ls_selected (fst s) \<and> fst (list_turn env inp2 inps2 s') = Undefined"
proof -
  obtain fr where "list_key env inp inps ((list_scroll inp (fst s))\<lparr>ls_status := []\<rparr>, (snd s)\<lparr>wo_frame := fr\<rparr>) =
      (Next s', rest)"
    using list_turn_key[OF assms(2)] .
  then have sel: "ls_selected (fst s') = ls_selected (fst s)"
    unfolding list_key_open(2)[OF assms(1)] by (drule_tac list_edit_next) simp
  have none: "selected_entry ((list_scroll inp2 (fst s'))\<lparr>ls_status := []\<rparr>) = None"
    using sel assms(4) by (simp add: selected_entry_def)
  have u: "list_read env inp2 inps2 ((list_scroll inp2 (fst s'))\<lparr>ls_status := []\<rparr>, w) = (Undefined, inps2)"
    "list_edit env inp2 inps2 ((list_scroll inp2 (fst s'))\<lparr>ls_status := []\<rparr>, w) = (Undefined, inps2)"
    "list_delete env inps2 ((list_scroll inp2 (fst s'))\<lparr>ls_status := []\<rparr>, w) = (Undefined, inps2)" for w
    using assms(3) none by (simp_all add: list_read_def list_edit_def list_delete_def Let_def)
  have "list_key env inp2 inps2 ((list_scroll inp2 (fst s'))\<lparr>ls_status := []\<rparr>, w) = (Undefined, inps2)" for w
    using assms(5) u by (metis list_key_open(1,2,3))
  then show ?thesis
    using sel by (cases s') (auto simp: list_turn_def Let_def split: option.split)
qed

text \<open>
  C25. Deleting takes a confirmation and hits the selected entry: after D, a key other than Y changes
  nothing on the server or in the list; Y sends the DELETE of the id under the selection, fetches the
  list again and puts the selection inside it.
\<close>

theorem delete_is_confirmed:
  assumes "sel_inv (fst s)" and "0 < ls_count (fst s)"
    and "in_key inp = Byte (CHR ''d'') \<or> in_key inp = Byte (CHR ''D'')"
    and "list_turn env inp (conf # inps) s = (Next s', rest)"
  shows "rest = inps \<and> sel_inv (fst s') \<and>
    (if in_key conf = Byte (CHR ''y'') \<or> in_key conf = Byte (CHR ''Y'')
     then \<exists>rc net r. net_delete_entry (ue_proto env)
         (de_id (ls_entries (fst s) ! nat (ls_selected (fst s)))) (wo_net (snd s)) = (rc, net) \<and>
       net_get_entries (ue_proto env) net = (r, wo_net (snd s')) \<and>
       ls_entries (fst s') = (case r of None \<Rightarrow> [] | Some es \<Rightarrow> es)
     else wo_net (snd s') = wo_net (snd s) \<and> ls_entries (fst s') = ls_entries (fst s))"
proof -
  obtain fr where k: "list_key env inp (conf # inps) ((list_scroll inp (fst s))\<lparr>ls_status := []\<rparr>,
      (snd s)\<lparr>wo_frame := fr\<rparr>) = (Next s', rest)"
    using list_turn_key[OF assms(4)] .
  define st where "st = (list_scroll inp (fst s))\<lparr>ls_status := []\<rparr>"
  define w where "w = (snd s)\<lparr>wo_frame := fr\<rparr>"
  have st: "sel_inv st" "0 < ls_count st" "ls_entries st = ls_entries (fst s)" "ls_selected st = ls_selected (fst s)"
    using assms(1,2) by (simp_all add: st_def sel_inv_def)
  then have e: "selected_entry st = Some (ls_entries st ! nat (ls_selected st))"
    by (simp add: selected_entry_def sel_inv_def)
  have d: "list_delete env (conf # inps) (st, w) = (Next s', rest)"
    using k unfolding list_key_open(3)[OF assms(3)] st_def w_def .
  have inv: "sel_inv (fst s')" by (rule list_delete_inv[OF d st(1)])
  show ?thesis
  proof (cases "in_key conf = Byte (CHR ''y'') \<or> in_key conf = Byte (CHR ''Y'')")
    case False
    then show ?thesis
      using d e st inv by (auto simp: list_delete_def Let_def w_def)
  next
    case True
    obtain rc net where n: "net_delete_entry (ue_proto env) (de_id (ls_entries st ! nat (ls_selected st))) (wo_net w) =
        (rc, net)" by force
    obtain r net2 where g: "net_get_entries (ue_proto env) net = (r, net2)" by force
    have "s' = (clamp_selected (case r of
          None \<Rightarrow> st\<lparr>ls_entries := [], ls_status := ''Error fetching entries.''\<rparr>
        | Some es \<Rightarrow> st\<lparr>ls_status := (if rc = 0 then ''Entry deleted.'' else ''Error deleting entry.''),
            ls_entries := es\<rparr>), (list_ask w)\<lparr>wo_net := net2\<rparr>) \<and> rest = inps"
      using d e st(2) True n g by (auto simp: list_delete_def Let_def reload_entries_def split: option.splits)
    moreover have "ls_entries (clamp_selected x) = ls_entries x" for x by (simp add: clamp_selected_def)
    ultimately show ?thesis
      using True n g inv st by (auto simp: w_def split: option.splits)
  qed
qed

lemma get_entries_sorted:
  assumes "net_get_entries P w = (Some es, w')" and "\<forall>e \<in> set es. plain_id e"
  shows "sorted_wrt newer_first es"
proof -
  have "es = [] \<or> (\<exists>arr. es = qsort entry_cmp_newest_first arr)"
    using assms(1) by (auto simp: net_get_entries_def Let_def split: prod.splits option.splits if_splits)
  then show ?thesis using newest_first_sorted assms(2) by auto
qed

text \<open>
  C28. After N the oldest entry is selected, not the new one: the list is newest first, and the selection
  goes to its last row.
\<close>

theorem new_entry_selects_oldest:
  assumes "in_key inp = Byte (CHR ''n'') \<or> in_key inp = Byte (CHR ''N'')"
    and "list_turn env inp inps s = (Next s', rest)" and "rest \<noteq> []"
    and "ls_entries (fst s') \<noteq> []" and "\<forall>e \<in> set (ls_entries (fst s')). plain_id e"
  shows "\<exists>e. selected_entry (fst s') = Some e \<and>
    (\<forall>e' \<in> set (ls_entries (fst s')). e' = e \<or> newer_first e' e)"
proof -
  obtain fr where "list_key env inp inps ((list_scroll inp (fst s))\<lparr>ls_status := []\<rparr>, (snd s)\<lparr>wo_frame := fr\<rparr>) =
      (Next s', rest)"
    using list_turn_key[OF assms(2)] .
  then obtain st w where "s' = (let (st, w) = reload_entries env (st, w) in
      (st\<lparr>ls_selected := (if ls_count st > 0 then ls_count st - 1 else 0)\<rparr>, w))"
    using assms(3) unfolding list_key_open(4)[OF assms(1)] list_new_def
    by (auto dest!: after_screen_next)
  moreover obtain st2 w2 where r: "reload_entries env (st, w) = (st2, w2)" by force
  ultimately have s': "s' = (st2\<lparr>ls_selected := (if ls_count st2 > 0 then ls_count st2 - 1 else 0)\<rparr>, w2)"
    by simp
  then have es: "ls_entries (fst s') = ls_entries st2" "ls_entries st2 \<noteq> []" using assms(4) by simp_all
  obtain net where "net_get_entries (ue_proto env) (wo_net w) = (Some (ls_entries st2), net)"
    using r es(2) by (auto simp: reload_entries_def split: prod.splits option.splits)
  then have so: "sorted_wrt newer_first (ls_entries st2)"
    using get_entries_sorted assms(5) es(1) by metis
  let ?n = "length (ls_entries st2) - 1"
  have "selected_entry (fst s') = Some (ls_entries st2 ! ?n)"
    using s' es(2) by (cases "ls_entries st2") (auto simp: selected_entry_def nat_diff_distrib)
  moreover have "e' = ls_entries st2 ! ?n \<or> newer_first e' (ls_entries st2 ! ?n)"
    if mem: "e' \<in> set (ls_entries st2)" for e'
  proof -
    obtain i where i: "i < length (ls_entries st2)" "e' = ls_entries st2 ! i"
      using mem by (auto simp: in_set_conv_nth)
    then show ?thesis
      using sorted_wrt_nth_less[OF so, of i ?n] by (cases "i = ?n") auto
  qed
  ultimately show ?thesis using es(1) by auto
qed

subsection \<open>Witnesses\<close>

lemma demo_get:
  "\<exists>w'. net_get_entries demo_proto demo_wire =
     (Some [\<lparr>de_id = 1, de_timestamp = 100, de_text = Some ''[could not decrypt]''\<rparr>], w')"
  using demo.get_exact[OF demo_connected]
  by (simp add: MAX_ENTRIES_def qsort_def entry_of_def demo_dec_def)

abbreviation esc :: ui_input where
  "esc \<equiv> demo_input (Byte (CHR 0x1B))"

lemma demo_esc:
  assumes "editor_open inp i x 100 = Next st" and "ed_dirty st = 0" and "ed_stamp st = 100"
  shows "\<exists>w'. screen_editor demo_env inp i x 100 (esc # rest) w = (Leave w', rest) \<and> wo_net w' = wo_net w"
proof -
  have ts: "format_ts demo_env (ed_stamp (fst (st, w\<lparr>wo_ixon := False\<rparr>))) = Some ''2026-01-02 03:04''"
    using assms(3) by simp
  have "editor_loop demo_env (esc # rest) (st, w\<lparr>wo_ixon := False\<rparr>) =
      (Leave (drawn esc ''2026-01-02 03:04'' (st, w\<lparr>wo_ixon := False\<rparr>)), rest)"
    using editor_step_esc[OF ts, of esc] assms(2) by (simp add: editor_loop_def)
  then show ?thesis using assms(1) by (simp add: screen_editor_def)
qed

lemma demo_reload:
  "wo_net w = demo_wire \<Longrightarrow> \<exists>w'. reload_entries demo_env (st, w) =
     (st\<lparr>ls_entries := [\<lparr>de_id = 1, de_timestamp = 100, de_text = Some ''[could not decrypt]''\<rparr>]\<rparr>, w')"
  using demo_get by (auto simp: reload_entries_def demo_env_world)

lemma demo_list_turn:
  "\<exists>fr. list_turn demo_env (demo_input k) inps (demo_list, demo_world) =
     list_key demo_env (demo_input k) inps ((list_scroll (demo_input k) demo_list)\<lparr>ls_status := []\<rparr>,
       demo_world\<lparr>wo_frame := fr\<rparr>)"
  using demo_list_frame[of k "wo_frame demo_world"] by (auto simp: list_turn_def Let_def)

theorem edit_leaves_stale_selection_witness:
  "\<exists>s'. list_turn demo_env (demo_input (Byte (CHR ''e''))) [esc] (demo_list, demo_world) = (Next s', []) \<and>
    fst (list_turn demo_env (demo_input KEY_ENTER) [] s') = Undefined"
proof -
  let ?i = "demo_input (Byte (CHR ''e''))"
  obtain fr where t: "list_turn demo_env ?i [esc] (demo_list, demo_world) =
      list_key demo_env ?i [esc] ((list_scroll ?i demo_list)\<lparr>ls_status := []\<rparr>, demo_world\<lparr>wo_frame := fr\<rparr>)"
    using demo_list_turn by blast
  have ed: "edits (in_key ?i)" by (simp add: edits_def)
  let ?st = "(list_scroll ?i demo_list)\<lparr>ls_status := []\<rparr>"
  have sel: "selected_entry ?st = Some \<lparr>de_id = 1, de_timestamp = 100, de_text = Some ''one''\<rparr>"
    by (simp add: selected_entry_def demo_list_def demo_entries_def)
  obtain st where st: "editor_open ?i 1 (Some ''one'') 100 = Next st" "ed_stamp st = 100" "ed_dirty st = 0"
    by (rule editor_open_text[of ?i _ 1 "''one''" 100]) simp_all
  obtain w' where w': "screen_editor demo_env ?i 1 (Some ''one'') 100 [esc] (demo_world\<lparr>wo_frame := fr\<rparr>) =
      (Leave w', [])" "wo_net w' = demo_wire"
    using demo_esc[OF st(1,3,2), of "[]" "demo_world\<lparr>wo_frame := fr\<rparr>"] by (auto simp: demo_env_world)
  obtain w2 where "reload_entries demo_env (?st, w') =
      (?st\<lparr>ls_entries := [\<lparr>de_id = 1, de_timestamp = 100, de_text = Some ''[could not decrypt]''\<rparr>]\<rparr>, w2)"
    using demo_reload[OF w'(2)] by blast
  then obtain s' where s': "list_turn demo_env ?i [esc] (demo_list, demo_world) = (Next s', [])"
    "ls_count (fst s') = 1"
    using w'(1) sel unfolding t list_key_open(2)[OF ed]
    by (auto simp: list_edit_def after_screen_def demo_list_def demo_entries_def)
  have "fst (list_turn demo_env (demo_input KEY_ENTER) [] s') = Undefined"
    using edit_leaves_stale_selection[OF ed s'(1)] s'(2) by (simp add: demo_list_def)
  then show ?thesis using s'(1) by blast
qed

theorem delete_is_confirmed_witness:
  "\<exists>s'. list_turn demo_env (demo_input (Byte (CHR ''d''))) [esc] (demo_list, demo_world) = (Next s', []) \<and>
    ls_entries (fst s') = demo_entries"
proof -
  let ?i = "demo_input (Byte (CHR ''d''))"
  obtain fr where t: "list_turn demo_env ?i [esc] (demo_list, demo_world) =
      list_key demo_env ?i [esc] ((list_scroll ?i demo_list)\<lparr>ls_status := []\<rparr>, demo_world\<lparr>wo_frame := fr\<rparr>)"
    using demo_list_turn by blast
  have d: "in_key ?i = Byte (CHR ''d'') \<or> in_key ?i = Byte (CHR ''D'')" by simp
  obtain s' where s': "list_turn demo_env ?i [esc] (demo_list, demo_world) = (Next s', [])"
    unfolding t list_key_open(3)[OF d]
    by (auto simp: list_delete_def Let_def selected_entry_def demo_list_def demo_entries_def)
  show ?thesis
    using delete_is_confirmed[OF _ _ d s'] s' by (simp add: sel_inv_def demo_list_def demo_entries_def)
qed

theorem new_entry_selects_oldest_witness:
  "\<exists>s'. list_turn demo_env (demo_input (Byte (CHR ''n''))) [esc, esc] (demo_list, demo_world) = (Next s', [esc]) \<and>
    selected_entry (fst s') \<noteq> None"
proof -
  let ?i = "demo_input (Byte (CHR ''n''))"
  obtain fr where t: "list_turn demo_env ?i [esc, esc] (demo_list, demo_world) =
      list_key demo_env ?i [esc, esc] ((list_scroll ?i demo_list)\<lparr>ls_status := []\<rparr>, demo_world\<lparr>wo_frame := fr\<rparr>)"
    using demo_list_turn by blast
  have n: "in_key ?i = Byte (CHR ''n'') \<or> in_key ?i = Byte (CHR ''N'')" by simp
  let ?st = "(list_scroll ?i demo_list)\<lparr>ls_status := []\<rparr>"
  obtain st where st: "editor_open ?i 0 None 500 = Next st" "ed_stamp st = 500" "ed_dirty st = 0"
    by (rule editor_open_new[of ?i 0 500]) simp_all
  have ts: "format_ts demo_env 500 = Some ''2026-01-02 03:04''" by (simp add: format_ts_def demo_env_def)
  have "editor_loop demo_env [esc, esc] (st, demo_world\<lparr>wo_frame := fr, wo_ixon := False\<rparr>) =
      (Leave (drawn esc ''2026-01-02 03:04'' (st, demo_world\<lparr>wo_frame := fr, wo_ixon := False\<rparr>)), [esc])"
    using editor_step_esc[of demo_env "(st, demo_world\<lparr>wo_frame := fr, wo_ixon := False\<rparr>)" _ esc] ts st
    by (simp add: editor_loop_def)
  then obtain w' where w': "screen_editor demo_env ?i 0 None 500 [esc, esc] (demo_world\<lparr>wo_frame := fr\<rparr>) =
      (Leave w', [esc])" "wo_net w' = demo_wire"
    using st(1) by (auto simp: screen_editor_def demo_env_world)
  obtain w2 where r: "reload_entries demo_env (?st, w') =
      (?st\<lparr>ls_entries := [\<lparr>de_id = 1, de_timestamp = 100, de_text = Some ''[could not decrypt]''\<rparr>]\<rparr>, w2)"
    using demo_reload[OF w'(2)] by blast
  have now: "in_now ?i = 500" by (simp add: demo_input_def)
  obtain s' where s': "list_turn demo_env ?i [esc, esc] (demo_list, demo_world) = (Next s', [esc])"
    "ls_entries (fst s') = [\<lparr>de_id = 1, de_timestamp = 100, de_text = Some ''[could not decrypt]''\<rparr>]"
    using w'(1) r now unfolding t list_key_open(4)[OF n]
    by (auto simp: list_new_def after_screen_def demo_env_world)
  show ?thesis
    using new_entry_selects_oldest[OF n s'(1)] s' by (auto simp: plain_id_def)
qed

end
