(* ===== verification/Session.thy ===== *)
theory Session
  imports ScreensClaims
begin

text \<open>
  A whole session of the client over the server: the list, the editor and the viewer, opened and left in
  any order, against the server model of Link.thy. The state the screens keep and the state of the server
  stay in step; the one way into undefined behaviour is a function key that no branch of the editor takes.
  A run of the editor writes one entry at most.
\<close>

subsection \<open>The connection during a session\<close>

definition mine :: "('d \<Rightarrow> tables) \<Rightarrow> 'd wire \<Rightarrow> entry_row list" where
  "mine tables w = owned (wire_user w) (tables (wire_db w))"

text \<open>A working connection with room for \<open>n\<close> more entries, all of whose dates \<open>localtime\<close> knows.\<close>

definition room :: "('d \<Rightarrow> tables) \<Rightarrow> 'd wire ui_env \<Rightarrow> nat \<Rightarrow> 'd wire \<Rightarrow> bool" where
  "room tables env n w \<longleftrightarrow> connected tables w \<and> t_seq (tables (wire_db w)) + int n < 2 ^ 31 - 1 \<and>
     length (mine tables w) + n \<le> MAX_ENTRIES \<and>
     (\<forall>r \<in> set (mine tables w). format_ts env (row_ts r) \<noteq> None) \<and>
     (\<forall>k. format_ts env (c_long (pe_clock (wi_peer w) k)) \<noteq> None)"

definition same_line :: "('d \<Rightarrow> tables) \<Rightarrow> 'd wire \<Rightarrow> 'd wire \<Rightarrow> bool" where
  "same_line tables w w' \<longleftrightarrow> wire_user w' = wire_user w \<and> pe_clock (wi_peer w') = pe_clock (wi_peer w) \<and>
     (\<forall>u. u \<noteq> wire_user w \<longrightarrow> owned u (tables (wire_db w')) = owned u (tables (wire_db w)))"

lemma same_line_refl [simp]: "same_line tables w w"
  by (simp add: same_line_def)

lemma same_line_trans: "same_line tables w w' \<Longrightarrow> same_line tables w' w'' \<Longrightarrow> same_line tables w w''"
  by (simp add: same_line_def)

lemma room_less: "room tables env n w \<Longrightarrow> m \<le> n \<Longrightarrow> room tables env m w"
  by (auto simp: room_def)

text \<open>The clock of the server is not the client's to change.\<close>

lemma net_clock:
  "net_post_entry (wire_proto lib sq enc dec) x ts w = (i, w') \<Longrightarrow> pe_clock (wi_peer w') = pe_clock (wi_peer w)"
  "net_update_entry (wire_proto lib sq enc dec) j x w = (i, w') \<Longrightarrow> pe_clock (wi_peer w') = pe_clock (wi_peer w)"
  "net_delete_entry (wire_proto lib sq enc dec) j w = (i, w') \<Longrightarrow> pe_clock (wi_peer w') = pe_clock (wi_peer w)"
  by (auto simp: net_post_entry_def net_update_entry_def net_delete_entry_def wire_proto_def wire_send_def
      server_answer_def Let_def split: prod.splits option.splits list.splits if_splits)

context sealed_server
begin

abbreviation "wp \<equiv> wire_proto lib sq enc dec"

lemma get_kept:
  assumes "connected tables w" and "length (mine tables w) \<le> MAX_ENTRIES"
  obtains es w' where "net_get_entries wp w = (Some es, w')" and "connected tables w'"
    and "wire_user w' = wire_user w" and "tables (wire_db w') = tables (wire_db w)"
    and "pe_clock (wi_peer w') = pe_clock (wi_peer w)"
    and "mset es = mset (map (entry_of dec) (mine tables w))" and "sorted_wrt newer_first es"
proof -
  let ?rs = "mine tables w"
  obtain out p' where a: "server_answer lib sq ''GET'' (wi_peer w) = (out, p')" by force
  have e: "out = (''ENTRIES '' @ show_int (int (length ?rs))) # map row_line ?rs"
    "tables (pe_db p') = tables (wire_db w)" "pe_session p' = pe_session (wi_peer w)"
    using answer_exact[OF _ _ _ a refl] assms
    by (simp_all add: connected_def wire_user_def wire_db_def listing_def mine_def)
  have clock: "pe_clock p' = pe_clock (wi_peer w)"
    using a by (auto simp: server_answer_def split: prod.splits)
  have good: "\<forall>r \<in> set ?rs. good_row r"
    using assms(1) roomy_good_row by (auto simp: connected_def mine_def)
  have "length ?rs < 2 ^ 31" using assms(2) by (simp add: MAX_ENTRIES_def)
  then obtain w' where w': "net_get_entries wp w = (Some (qsort entry_cmp_newest_first (map (entry_of dec) ?rs)), w')"
    "wi_inbox w' = []" "wi_peer w' = p'"
    using link.get_by_answer[of w ?rs p'] a e good assms(1) by (auto simp: connected_def wire_proto_def)
  have "connected tables w'" "wire_user w' = wire_user w"
    using w' e assms(1) by (simp_all add: connected_def wire_user_def wire_db_def)
  then show thesis
    using that w' e clock newest_first_sorted[OF connected_plain[OF assms(1), of dec]]
    by (simp add: wire_db_def mine_def)
qed

lemma get_room:
  assumes "room tables env n w"
  obtains es w' where "net_get_entries wp w = (Some es, w')" and "room tables env n w'"
    and "same_line tables w w'" and "mine tables w' = mine tables w"
    and "mset es = mset (map (entry_of dec) (mine tables w))" and "sorted_wrt newer_first es"
proof -
  have "length (mine tables w) \<le> MAX_ENTRIES" "connected tables w" using assms by (simp_all add: room_def)
  from get_kept[OF this(2,1)] obtain es w' where g: "net_get_entries wp w = (Some es, w')" "connected tables w'"
    "wire_user w' = wire_user w" "tables (wire_db w') = tables (wire_db w)"
    "pe_clock (wi_peer w') = pe_clock (wi_peer w)"
    "mset es = mset (map (entry_of dec) (mine tables w))" "sorted_wrt newer_first es" .
  then have "mine tables w' = mine tables w" by (simp add: mine_def)
  then show thesis using that g assms by (simp add: room_def same_line_def)
qed

lemma post_room:
  assumes "room tables env (Suc n) w" and "fits_long ts" and "ts > 0 \<longrightarrow> format_ts env ts \<noteq> None"
    and "net_post_entry wp x ts w = (i, w')"
  shows "0 < i \<and> room tables env n w' \<and> same_line tables w w' \<and>
    length (mine tables w) \<le> length (mine tables w') \<and> i \<in> row_id ` set (mine tables w') \<and>
    i \<notin> row_id ` set (mine tables w) \<and>
    (\<exists>r. mine tables w' = mine tables w @ [r] \<and> row_id r = i \<and> dec (row_data r) = Some (c_str x))"
proof -
  have c: "connected tables w" "t_seq (tables (wire_db w)) < 2 ^ 31 - 2" using assms(1) by (auto simp: room_def)
  obtain b w2 where p: "net_post_entry wp x ts w = (t_seq (tables (wire_db w)) + 1, w2)" "connected tables w2"
    "wire_user w2 = wire_user w" "dec b = Some (c_str x)"
    "tables (wire_db w2) = tb_add (t_seq (tables (wire_db w)) + 1) (wire_user w)
      (if ts > 0 then ts else c_long (wire_now w)) b (tables (wire_db w))"
    using post_exact[OF c assms(2) refl, of x] by auto
  have i: "i = t_seq (tables (wire_db w)) + 1" "w' = w2" using assms(4) p(1) by simp_all
  have o: "mine tables w' = mine tables w @ [\<lparr>row_id = i, row_owner = wire_user w,
      row_ts = (if ts > 0 then ts else c_long (wire_now w)), row_data = b\<rparr>]"
    using p i by (simp add: mine_def owned_def tb_add_def)
  have others: "owned u (tables (wire_db w')) = owned u (tables (wire_db w))" if "u \<noteq> wire_user w" for u
    using p i that by (simp add: owned_def tb_add_def)
  have new: "0 < i" "i \<notin> row_id ` set (mine tables w)"
    using c(1) i by (force simp: connected_def roomy_def tables_inv_def mine_def owned_def)+
  moreover have "t_seq (tables (wire_db w')) = i" using p i by (simp add: tb_add_def)
  moreover have "format_ts env (c_long (wire_now w)) \<noteq> None"
    using assms(1) by (simp add: room_def wire_now_def)
  ultimately show ?thesis
    using assms(1,3) p i o others net_clock(1)[OF assms(4)] by (auto simp: room_def same_line_def)
qed

lemma update_room:
  assumes "room tables env n w" and "i \<in> row_id ` set (mine tables w)" and "net_update_entry wp i x w = (rc, w')"
  shows "rc = i \<and> 0 < i \<and> room tables env n w' \<and> same_line tables w w' \<and>
    length (mine tables w') = length (mine tables w) \<and> row_id ` set (mine tables w') = row_id ` set (mine tables w) \<and>
    (\<exists>b. dec b = Some (c_str x) \<and>
      mine tables w' = map (\<lambda>r. if row_id r = i then r\<lparr>row_data := b\<rparr> else r) (mine tables w))"
proof -
  have c: "connected tables w" using assms(1) by (simp add: room_def)
  obtain r where r: "r \<in> set (t_entries (tables (wire_db w)))" "hits i (wire_user w) r" "row_id r = i"
    using assms(2) by (auto simp: mine_def owned_def hits_def)
  have i: "0 < i" "fits_int i"
    using roomy_row[of "tables (wire_db w)" r] c r by (auto simp: connected_def fits_int_def)
  obtain b w2 where p: "net_update_entry wp i x w = (i, w2)" "connected tables w2" "wire_user w2 = wire_user w"
    "dec b = Some (c_str x)"
    "tables (wire_db w2) = tb_update i (wire_user w) b (tables (wire_db w))"
    using update_exact[OF c i(2) r(1,2), of x] by auto
  have w': "rc = i" "w' = w2" using assms(3) p(1) by simp_all
  have o: "mine tables w' = map (\<lambda>r. if row_id r = i then r\<lparr>row_data := b\<rparr> else r) (mine tables w)"
    using p w' by (auto simp: mine_def owned_def tb_update_def filter_map o_def hits_def intro!: map_cong filter_cong)
  have others: "owned u (tables (wire_db w')) = owned u (tables (wire_db w))" if "u \<noteq> wire_user w" for u
    using p w' that by (auto simp: owned_def tb_update_def hits_def intro!: filter_map_keep)
  have "map row_id (mine tables w') = map row_id (mine tables w)" by (simp add: o)
  then have ids: "row_id ` set (mine tables w') = row_id ` set (mine tables w)" by (metis set_map)
  have "t_seq (tables (wire_db w')) = t_seq (tables (wire_db w))" using p w' by (simp add: tb_update_def)
  then show ?thesis
    using assms(1) i p w' o others ids net_clock(2)[OF assms(3)] by (auto simp: room_def same_line_def)
qed

lemma delete_room:
  assumes "room tables env n w" and "i \<in> row_id ` set (mine tables w)" and "net_delete_entry wp i w = (rc, w')"
  shows "room tables env n w' \<and> same_line tables w w' \<and>
    mine tables w' = filter (\<lambda>r. row_id r \<noteq> i) (mine tables w)"
proof -
  have c: "connected tables w" using assms(1) by (simp add: room_def)
  obtain r where r: "r \<in> set (t_entries (tables (wire_db w)))" "row_id r = i"
    using assms(2) by (auto simp: mine_def owned_def)
  have i: "fits_int i"
    using roomy_row[of "tables (wire_db w)" r] c r by (auto simp: connected_def fits_int_def)
  have p: "connected tables w'" "wire_user w' = wire_user w"
    "tables (wire_db w') = tb_delete i (wire_user w) (tables (wire_db w))"
    using delete_exact[OF c i] assms(3) by auto
  have o: "mine tables w' = filter (\<lambda>r. row_id r \<noteq> i) (mine tables w)"
    using p by (auto simp: mine_def owned_def tb_delete_def hits_def intro!: filter_cong)
  have others: "owned u (tables (wire_db w')) = owned u (tables (wire_db w))" if "u \<noteq> wire_user w" for u
    using p that by (auto simp: owned_def tb_delete_def hits_def intro!: filter_cong)
  have "t_seq (tables (wire_db w')) = t_seq (tables (wire_db w))" using p by (simp add: tb_delete_def)
  moreover have "length (mine tables w') + n \<le> MAX_ENTRIES"
    using assms(1) length_filter_le[of "\<lambda>r. row_id r \<noteq> i" "mine tables w"] unfolding o room_def by linarith
  moreover have "\<forall>r \<in> set (mine tables w'). format_ts env (row_ts r) \<noteq> None"
    using assms(1) unfolding o room_def by simp
  ultimately show ?thesis
    using assms(1) p o others net_clock(3)[OF assms(3)] by (simp add: room_def same_line_def)
qed

end

subsection \<open>The editor over the connection\<close>

definition dates_ok :: "'w ui_env \<Rightarrow> bool" where
  "dates_ok env \<longleftrightarrow> fits_long (ue_entry_at env) \<and>
     (ue_entry_at env > 0 \<longrightarrow> format_ts env (ue_entry_at env) \<noteq> None)"

definition input_ok :: "'w ui_env \<Rightarrow> ui_input \<Rightarrow> bool" where
  "input_ok env inp \<longleftrightarrow> in_calloc inp \<and> in_realloc inp \<noteq> None \<and>
     format_ts env (in_now inp) \<noteq> None"

text \<open>
  A run of the editor in which no function key falls through to \<open>isprint\<close>: at each turn the key is one that
  some branch takes in the state of that turn (\<open>KEY_LEFT\<close> only behind the beginning, for instance).
\<close>

fun editor_calm :: "'w ui_env \<Rightarrow> ui_input list \<Rightarrow> editor \<times> 'w world \<Rightarrow> bool" where
  "editor_calm env [] s \<longleftrightarrow> True"
| "editor_calm env (inp # inps) s \<longleftrightarrow> \<not> unhandled (in_key inp) (fst s) \<and>
     (case editor_step env inp s of Next s' \<Rightarrow> editor_calm env inps s' | _ \<Rightarrow> True)"

definition screen_calm :: "'w ui_env \<Rightarrow> ui_input \<Rightarrow> int \<Rightarrow> bytes option \<Rightarrow> int \<Rightarrow> ui_input list \<Rightarrow> 'w world \<Rightarrow> bool" where
  "screen_calm env inp i x t inps w \<longleftrightarrow>
     (case editor_open inp i x t of Next st \<Rightarrow> editor_calm env inps (st, w\<lparr>wo_ixon := False\<rparr>) | _ \<Rightarrow> True)"

lemma editor_opens:
  assumes "in_calloc inp" and "in_realloc inp \<noteq> None"
  shows "\<exists>st. editor_open inp i x t = Next st"
proof (cases x)
  case None
  then show ?thesis using editor_open_new[OF assms(1)] by metis
next
  case (Some y)
  then show ?thesis using editor_open_text[of inp] assms(2) by (metis option.exhaust)
qed

text \<open>The editor on a connection: its entry is new or one of the user's.\<close>

definition editor_on :: "('d \<Rightarrow> tables) \<Rightarrow> 'd wire ui_env \<Rightarrow> nat \<Rightarrow> 'd wire \<Rightarrow> editor \<times> 'd wire world \<Rightarrow> bool" where
  "editor_on tables env n w0 s \<longleftrightarrow> editor_ready env s \<and> room tables env n (wo_net (snd s)) \<and>
     same_line tables w0 (wo_net (snd s)) \<and>
     length (mine tables w0) \<le> length (mine tables (wo_net (snd s))) \<and>
     (ed_id (fst s) \<le> 0 \<or> ed_id (fst s) \<in> row_id ` set (mine tables (wo_net (snd s))))"

lemma editor_on_quiet:
  "editor_on tables env (Suc n) w0 s \<Longrightarrow> keeps s s' \<Longrightarrow> quiet s s' \<Longrightarrow> editor_on tables env n w0 s'"
  using room_less[of tables env "Suc n" _ n] by (simp add: editor_on_def editor_ready_def keeps_def quiet_def)

context sealed_server
begin

lemma save_on:
  assumes "ue_proto env = wp" and "dates_ok env" and "editor_on tables env (Suc n) w0 s" and "keeps s s'"
    and "save_done env inp (fst s) w (fst s') (snd s')" and "wo_net w = wo_net (snd s)"
  shows "editor_on tables env n w0 s'"
proof -
  let ?net = "wo_net (snd s)" and ?net' = "wo_net (snd s')"
  have on: "room tables env (Suc n) ?net" "same_line tables w0 ?net" "length (mine tables w0) \<le> length (mine tables ?net)"
    using assms(3) by (simp_all add: editor_on_def)
  have r: "editor_ready env s'" using assms(3,4) by (simp add: editor_on_def editor_ready_def keeps_def)
  obtain i where call: "save_call env (fst s) ?net = (i, ?net')"
    and id: "i > 0 \<longrightarrow> ed_id (fst s') = (if ed_id (fst s) \<le> 0 then i else ed_id (fst s))"
    "\<not> i > 0 \<longrightarrow> ed_id (fst s') = ed_id (fst s)"
    using assms(5,6) by (auto simp: save_done_def Let_def split: prod.splits if_splits)
  show ?thesis
  proof (cases "ed_id (fst s) > 0")
    case True
    then have "net_update_entry wp (ed_id (fst s)) (ed_text (fst s)) ?net = (i, ?net')"
      using call assms(1) by (simp add: save_call_def)
    moreover have mem: "ed_id (fst s) \<in> row_id ` set (mine tables ?net)"
      using True assms(3) by (simp add: editor_on_def)
    ultimately have u: "i = ed_id (fst s) \<and> 0 < ed_id (fst s) \<and> room tables env (Suc n) ?net' \<and> same_line tables ?net ?net' \<and>
        length (mine tables ?net') = length (mine tables ?net) \<and>
        row_id ` set (mine tables ?net') = row_id ` set (mine tables ?net)"
      using update_room[OF on(1)] by blast
    then have "room tables env n ?net'" using room_less[of tables env "Suc n" ?net' n] by simp
    then show ?thesis
      using u on mem r id same_line_trans[OF on(2)] by (simp add: editor_on_def)
  next
    case False
    then have "net_post_entry wp (ed_text (fst s)) (ue_entry_at env) ?net = (i, ?net')"
      using call assms(1) by (simp add: save_call_def)
    then have u: "0 < i \<and> room tables env n ?net' \<and> same_line tables ?net ?net' \<and>
        length (mine tables ?net) \<le> length (mine tables ?net') \<and> i \<in> row_id ` set (mine tables ?net')"
      using assms(2) post_room[OF on(1)] unfolding dates_ok_def by blast
    then show ?thesis
      using on r id False same_line_trans[OF on(2)] by (simp add: editor_on_def)
  qed
qed

lemma editor_turn_on:
  assumes "ue_proto env = wp" and "dates_ok env" and "editor_on tables env (Suc n) w0 s" and "input_ok env inp"
  obtains (stuck) "unhandled (in_key inp) (fst s)" and "editor_step env inp s = Undefined"
  | (goes) s' where "\<not> unhandled (in_key inp) (fst s)" and "editor_step env inp s = Next s'" and "editor_on tables env n w0 s'"
  | (leaves) s' where "\<not> unhandled (in_key inp) (fst s)" and "editor_step env inp s = Leave s'" and "editor_on tables env n w0 s'"
proof -
  obtain ts where ts: "format_ts env (ed_stamp (fst s)) = Some ts" and inv: "editor_inv (fst s)"
    using assms(3) by (auto simp: editor_on_def editor_ready_def)
  note t = editor_turn[OF inv ts, of inp]
  show thesis
  proof (cases "editor_step env inp s")
    case (Next s')
    then have k: "keeps s s'" and "quiet s s' \<or> save_done env inp (fst s) (snd (drawn inp ts s)) (fst s') (snd s')"
      using t by auto
    then have "editor_on tables env n w0 s'"
      using editor_on_quiet[OF assms(3) k] save_on[OF assms(1-3) k] by auto
    then show thesis using goes[of s'] Next t by simp
  next
    case (Leave s')
    then show thesis using leaves[of s'] t editor_on_quiet[OF assms(3)] by simp
  next
    case Undefined
    then show thesis using stuck t by simp
  qed
qed

lemma editor_loop_on:
  assumes "ue_proto env = wp" and "dates_ok env"
  shows "editor_on tables env (length inps) w0 s \<Longrightarrow> \<forall>inp \<in> set inps. input_ok env inp \<Longrightarrow>
    (if editor_calm env inps s
     then \<exists>r rest s'. editor_loop env inps s = (r, rest) \<and> (r = Next s' \<and> rest = [] \<or> r = Leave s') \<and>
       set rest \<subseteq> set inps \<and> editor_on tables env (length rest) w0 s'
     else \<exists>rest. editor_loop env inps s = (Undefined, rest))"
  unfolding editor_loop_def
proof (induction inps arbitrary: s)
  case (Cons inp inps)
  have on: "editor_on tables env (Suc (length inps)) w0 s" and ok: "input_ok env inp"
    and oks: "\<forall>inp \<in> set inps. input_ok env inp"
    using Cons.prems by simp_all
  show ?case
  proof (cases rule: editor_turn_on[OF assms on ok, case_names stuck goes leaves])
    case stuck
    then show ?thesis by simp
  next
    case (goes s1)
    show ?thesis
    proof (cases "editor_calm env inps s1")
      case True
      then obtain r rest s' where "run_turns (editor_step env) inps s1 = (r, rest)" "r = Next s' \<and> rest = [] \<or> r = Leave s'"
        "set rest \<subseteq> set inps" "editor_on tables env (length rest) w0 s'"
        using Cons.IH[OF goes(3) oks] by auto
      then show ?thesis using goes True by (simp del: split_paired_Ex) (intro exI[of _ s'], auto)
    next
      case False
      then show ?thesis using Cons.IH[OF goes(3) oks] goes by auto
    qed
  next
    case (leaves s1)
    moreover have "set inps \<subseteq> set (inp # inps)" by auto
    ultimately show ?thesis by (simp del: split_paired_Ex)
  qed
qed auto

end

text \<open>
  What one run of the editor may do to the user's entries: an entry that was opened may get another text, a
  new one may be added, all others stay.
\<close>

definition entry_written :: "int \<Rightarrow> entry_row list \<Rightarrow> entry_row list \<Rightarrow> bool" where
  "entry_written i rs rs' \<longleftrightarrow>
     (if i > 0 then \<exists>f. rs' = map (\<lambda>r. if row_id r = i then r\<lparr>row_data := f r\<rparr> else r) rs
      else rs' = rs \<or> (\<exists>r. rs' = rs @ [r] \<and> row_id r \<notin> row_id ` set rs))"

text \<open>The same at a turn, with the id the editor has by then.\<close>

definition posted :: "int \<Rightarrow> entry_row list \<Rightarrow> int \<Rightarrow> entry_row list \<Rightarrow> bool" where
  "posted i rs k rs' \<longleftrightarrow>
     (if i > 0 then k = i \<and> entry_written i rs rs'
      else k \<le> 0 \<and> rs' = rs \<or> 0 < k \<and> (\<exists>r. rs' = rs @ [r] \<and> row_id r = k \<and> k \<notin> row_id ` set rs))"

lemma posted_written: "posted i rs k rs' \<Longrightarrow> entry_written i rs rs'"
  by (auto simp: posted_def entry_written_def split: if_splits)

lemma posted_update:
  assumes "posted i rs k rs'" and "0 < k"
  shows "posted i rs k (map (\<lambda>r. if row_id r = k then r\<lparr>row_data := b\<rparr> else r) rs')"
proof (cases "i > 0")
  case True
  then obtain f where "rs' = map (\<lambda>r. if row_id r = i then r\<lparr>row_data := f r\<rparr> else r) rs" "k = i"
    using assms(1) by (auto simp: posted_def entry_written_def)
  then have "map (\<lambda>r. if row_id r = k then r\<lparr>row_data := b\<rparr> else r) rs' =
      map (\<lambda>r. if row_id r = i then r\<lparr>row_data := b\<rparr> else r) rs" by simp
  then show ?thesis using True \<open>k = i\<close> by (auto simp: posted_def entry_written_def)
next
  case False
  then obtain r where r: "rs' = rs @ [r]" "row_id r = k" "k \<notin> row_id ` set rs"
    using assms by (auto simp: posted_def)
  then have "map (\<lambda>r. if row_id r = k then r\<lparr>row_data := b\<rparr> else r) rs = rs"
    by (intro map_idI) (metis image_eqI)
  then show ?thesis using False assms(2) r by (simp add: posted_def)
qed

context sealed_server
begin

lemma posted_turn:
  assumes "ue_proto env = wp" and "dates_ok env" and "editor_on tables env (Suc n) w0 s"
    and "editor_step env inp s = Next s'" and "posted i rs (ed_id (fst s)) (mine tables (wo_net (snd s)))"
  shows "posted i rs (ed_id (fst s')) (mine tables (wo_net (snd s')))"
proof -
  let ?net = "wo_net (snd s)" and ?net' = "wo_net (snd s')" and ?k = "ed_id (fst s)"
  have inv: "editor_inv (fst s)" and room: "room tables env (Suc n) ?net"
    and mem: "?k \<le> 0 \<or> ?k \<in> row_id ` set (mine tables ?net)"
    using assms(3) by (simp_all add: editor_on_def editor_ready_def)
  note calls = turn_calls[OF inv assms(4)]
  show ?thesis
  proof (cases "0 < ?k")
    case True
    then have id: "ed_id (fst s') = ?k" and "?net' = ?net \<or>
        (\<exists>rc. net_update_entry wp ?k (ed_text (fst s)) ?net = (rc, ?net'))" using calls assms(1) by auto
    then consider "?net' = ?net" | rc where "net_update_entry wp ?k (ed_text (fst s)) ?net = (rc, ?net')" by blast
    then show ?thesis
    proof cases
      case 1
      then show ?thesis using id assms(5) by simp
    next
      case 2
      then obtain b where "mine tables ?net' =
          map (\<lambda>r. if row_id r = ?k then r\<lparr>row_data := b\<rparr> else r) (mine tables ?net)"
        using update_room[OF room _ 2] mem True by auto
      then show ?thesis using posted_update[OF assms(5) True] id by simp
    qed
  next
    case False
    then have old: "\<not> i > 0" "mine tables ?net = rs" using assms(5) by (auto simp: posted_def split: if_splits)
    consider "ed_id (fst s') = ?k" "?net' = ?net"
      | j where "net_post_entry wp (ed_text (fst s)) (ue_entry_at env) ?net = (j, ?net')"
          "ed_id (fst s') = (if j > 0 then j else ?k)"
      using calls False assms(1) by auto
    then show ?thesis
    proof cases
      case 1
      then show ?thesis using assms(5) by simp
    next
      case (2 j)
      have "0 < j \<and> j \<notin> row_id ` set rs \<and> (\<exists>r. mine tables ?net' = rs @ [r] \<and> row_id r = j)"
        using post_room[OF room _ _ 2(1)] assms(2) old(2) by (auto simp: dates_ok_def)
      then show ?thesis using 2(2) old(1) by (auto simp: posted_def)
    qed
  qed
qed

lemma posted_loop:
  assumes "ue_proto env = wp" and "dates_ok env"
  shows "editor_on tables env (length inps) w0 s \<Longrightarrow> \<forall>inp \<in> set inps. input_ok env inp \<Longrightarrow>
    posted i rs (ed_id (fst s)) (mine tables (wo_net (snd s))) \<Longrightarrow>
    editor_loop env inps s = (r, rest) \<Longrightarrow> r = Next s' \<or> r = Leave s' \<Longrightarrow>
    entry_written i rs (mine tables (wo_net (snd s')))"
  unfolding editor_loop_def
proof (induction inps arbitrary: s)
  case Nil
  then show ?case using posted_written by fastforce
next
  case (Cons inp inps)
  have on: "editor_on tables env (Suc (length inps)) w0 s" and ok: "input_ok env inp"
    and oks: "\<forall>inp \<in> set inps. input_ok env inp"
    using Cons.prems(1,2) by simp_all
  show ?case
  proof (cases rule: editor_turn_on[OF assms on ok, case_names stuck goes leaves])
    case stuck
    then show ?thesis using Cons.prems(4,5) by auto
  next
    case (goes s1)
    have "posted i rs (ed_id (fst s1)) (mine tables (wo_net (snd s1)))"
      by (rule posted_turn[OF assms on goes(2) Cons.prems(3)])
    then show ?thesis using Cons.IH[OF goes(3) oks] Cons.prems(4,5) goes(2) by simp
  next
    case (leaves s1)
    obtain ts where "format_ts env (ed_stamp (fst s)) = Some ts" "editor_inv (fst s)"
      using on by (auto simp: editor_on_def editor_ready_def)
    then have "wo_net (snd s1) = wo_net (snd s)"
      using editor_turn[of s env ts inp] leaves(2) by (simp add: quiet_def)
    moreover have "s' = s1" using Cons.prems(4,5) leaves(2) by auto
    ultimately show ?thesis using posted_written[OF Cons.prems(3)] by simp
  qed
qed

end

text \<open>
  C14. An entry is posted at most once. On a working connection (memory, room, and dates \<open>localtime\<close> knows
  included) let the editor run on any keys that some branch of it takes and on timeouts, with any number of
  saves by key or by timeout. It then waits for a key or is left, and: opened on the user's entry \<open>i\<close> it
  has added no entry, and all it has changed on the server is the text of \<open>i\<close>; opened on a new entry it has
  left the user's entries as they were or added exactly one, under an id none of them has. The entries of
  the other users are as they were.
\<close>

theorem editor_posts_once:
  assumes "sealed_server sq tables lib enc dec" and "ue_proto env = wire_proto lib sq enc dec"
    and "dates_ok env" and "\<forall>inp \<in> set inps. input_ok env inp" and "input_ok env inp"
    and "room tables env (length inps) (wo_net w)" and "format_ts env t \<noteq> None"
    and "i \<le> 0 \<or> i \<in> row_id ` set (owned (wire_user (wo_net w)) (tables (wire_db (wo_net w))))"
    and "screen_calm env inp i x t inps w"
  shows "\<exists>w'. (fst (screen_editor env inp i x t inps w) = Next w' \<or> fst (screen_editor env inp i x t inps w) = Leave w') \<and>
    wire_user (wo_net w') = wire_user (wo_net w) \<and>
    (\<forall>u. u \<noteq> wire_user (wo_net w) \<longrightarrow>
      owned u (tables (wire_db (wo_net w'))) = owned u (tables (wire_db (wo_net w)))) \<and>
    entry_written i (owned (wire_user (wo_net w)) (tables (wire_db (wo_net w))))
      (owned (wire_user (wo_net w)) (tables (wire_db (wo_net w'))))"
proof -
  obtain st where st: "editor_open inp i x t = Next st"
    using editor_opens[of inp i x t] assms(5) unfolding input_ok_def by blast
  have e: "editor_inv st" "ed_id st = i" "ed_stamp st = t"
    using editor_opened[OF st] assms(5) by (simp_all add: input_ok_def)
  let ?s = "(st, w\<lparr>wo_ixon := False\<rparr>)"
  have on: "editor_on tables env (length inps) (wo_net w) ?s"
    using e assms(6-8) by (simp add: editor_on_def editor_ready_def mine_def)
  have p: "posted i (mine tables (wo_net w)) (ed_id (fst ?s)) (mine tables (wo_net (snd ?s)))"
    using e(2) by (auto simp: posted_def entry_written_def intro!: exI[of _ row_data] map_idI[symmetric])
  have "editor_calm env inps ?s" using assms(9) st by (simp add: screen_calm_def)
  then obtain r rest s' where l: "editor_loop env inps ?s = (r, rest)" "r = Next s' \<or> r = Leave s'"
    and on': "editor_on tables env (length rest) (wo_net w) s'"
    using sealed_server.editor_loop_on[OF assms(1-3) on assms(4)] by auto
  let ?w' = "if r = Next s' then snd s' else (snd s')\<lparr>wo_ixon := wo_ixon w\<rparr>"
  have "fst (screen_editor env inp i x t inps w) = Next ?w' \<or> fst (screen_editor env inp i x t inps w) = Leave ?w'"
    using l st by (auto simp: screen_editor_def)
  moreover have "same_line tables (wo_net w) (wo_net ?w')" using on' by (simp add: editor_on_def)
  moreover have "entry_written i (mine tables (wo_net w)) (mine tables (wo_net ?w'))"
    using sealed_server.posted_loop[OF assms(1-3) on assms(4) p l] by simp
  ultimately show ?thesis by (intro exI[of _ ?w']) (simp add: same_line_def mine_def)
qed

text \<open>Keys that some branch takes in every state of the editor.\<close>

lemma calm_keys:
  assumes "\<forall>inp \<in> set inps. \<forall>st. \<not> unhandled (in_key inp) st"
  shows "editor_calm env inps s" and "screen_calm env inp i x t inps w"
proof -
  show calm: "editor_calm env inps s" for s
    using assms by (induction inps arbitrary: s) (auto split: outcome.split)
  show "screen_calm env inp i x t inps w" by (auto simp: screen_calm_def calm split: outcome.split)
qed

lemma demo_mine: "mine rd_tables demo_wire = [\<lparr>row_id = 1, row_owner = ''a1'', row_ts = 100, row_data = ''WA==''\<rparr>]"
  by (simp add: mine_def)

abbreviation timed_env :: "ref_db wire ui_env" where
  "timed_env \<equiv> demo_env\<lparr>ue_localtime := \<lambda>t. Some demo_tm\<rparr>"

lemma timed_demo:
  "length inps < 100 \<Longrightarrow> room rd_tables timed_env (length inps) (wo_net demo_world)"
  "dates_ok timed_env" "input_ok timed_env (demo_input k)" "format_ts timed_env t \<noteq> None"
  using demo_connected
  by (simp_all add: room_def demo_env_world format_ts_def demo_mine MAX_ENTRIES_def dates_ok_def fits_long_def input_ok_def)

definition demo_saves :: "ui_input list" where
  "demo_saves = map demo_input [Byte (CHR ''h''), KEY_F 2, Byte (CHR ''i''), ERR, KEY_F 2, Byte (CHR 0x1B)]"

theorem editor_posts_once_witness:
  "\<exists>w'. (fst (screen_editor timed_env (demo_input (Byte (CHR ''n''))) 0 None 500 demo_saves demo_world) = Next w' \<or>
      fst (screen_editor timed_env (demo_input (Byte (CHR ''n''))) 0 None 500 demo_saves demo_world) = Leave w') \<and>
    length (owned ''a1'' (rd_tables (wire_db (wo_net w')))) \<le> 2"
proof -
  let ?r = "fst (screen_editor timed_env (demo_input (Byte (CHR ''n''))) 0 None 500 demo_saves demo_world)"
  have calm: "screen_calm timed_env (demo_input (Byte (CHR ''n''))) 0 None 500 demo_saves demo_world"
    by (rule calm_keys(2)) (simp add: demo_saves_def)
  have ok: "\<forall>inp \<in> set demo_saves. input_ok timed_env inp" and len: "length demo_saves < 100"
    by (simp_all add: demo_saves_def timed_demo(3))
  have proto: "ue_proto timed_env = demo_proto" by (simp add: demo_env_world)
  have nobody: "(0 :: int) \<le> 0 \<or>
      0 \<in> row_id ` set (owned (wire_user (wo_net demo_world)) (rd_tables (wire_db (wo_net demo_world))))" by simp
  obtain w' where "?r = Next w' \<or> ?r = Leave w'"
    "entry_written 0 (mine rd_tables demo_wire) (owned ''a1'' (rd_tables (wire_db (wo_net w'))))"
    using editor_posts_once[OF demo.sealed_server_axioms proto timed_demo(2) ok timed_demo(3) timed_demo(1)[OF len]
        timed_demo(4) nobody calm]
    by (auto simp: demo_env_world mine_def)
  then show ?thesis by (intro exI[of _ w']) (auto simp: entry_written_def demo_mine)
qed

subsection \<open>The screens the list opens\<close>

text \<open>A screen on the connection ends or waits; it leaves the connection in order.\<close>

definition screen_ok :: "('d \<Rightarrow> tables) \<Rightarrow> 'd wire ui_env \<Rightarrow> 'd wire \<Rightarrow> ui_input list \<Rightarrow>
    'd wire world outcome \<times> ui_input list \<Rightarrow> bool" where
  "screen_ok tables env w0 inps r \<longleftrightarrow> (\<exists>w. (fst r = Next w \<and> snd r = [] \<or> fst r = Leave w) \<and>
     set (snd r) \<subseteq> set inps \<and> room tables env (length (snd r)) (wo_net w) \<and> same_line tables w0 (wo_net w) \<and>
     length (mine tables w0) \<le> length (mine tables (wo_net w)))"

lemma view_turn_net:
  "\<exists>s'. (view_turn title t vrows inp s = Next s' \<or> view_turn title t vrows inp s = Leave s') \<and>
    wo_net (snd s') = wo_net (snd s)"
  by (cases s; cases "in_key inp") (auto simp: view_turn_def Let_def)

lemma view_loop_net:
  "\<exists>r rest s'. run_turns (view_turn title t vrows) inps s = (r, rest) \<and> (r = Next s' \<and> rest = [] \<or> r = Leave s') \<and>
    set rest \<subseteq> set inps \<and> length rest \<le> length inps \<and> wo_net (snd s') = wo_net (snd s)"
proof (induction inps arbitrary: s)
  case (Cons inp inps)
  obtain s1 where s1: "view_turn title t vrows inp s = Next s1 \<or> view_turn title t vrows inp s = Leave s1"
    "wo_net (snd s1) = wo_net (snd s)"
    using view_turn_net by blast
  from s1(1) show ?case
  proof
    assume n: "view_turn title t vrows inp s = Next s1"
    obtain r rest s' where "run_turns (view_turn title t vrows) inps s1 = (r, rest)"
      "r = Next s' \<and> rest = [] \<or> r = Leave s'" "set rest \<subseteq> set inps" "length rest \<le> length inps"
      "wo_net (snd s') = wo_net (snd s1)"
      using Cons.IH[of s1] by auto
    then show ?thesis using n s1(2) by (intro exI[of _ r] exI[of _ rest] exI[of _ s']) auto
  next
    assume "view_turn title t vrows inp s = Leave s1"
    then show ?thesis using s1(2) by (intro exI[of _ "Leave s1"] exI[of _ inps] exI[of _ s1]) auto
  qed
qed auto

lemma view_screen_net:
  assumes "format_ts env (de_timestamp e) \<noteq> None"
  obtains r rest w' where "screen_view env inp e inps w = (r, rest)" and "r = Next w' \<and> rest = [] \<or> r = Leave w'"
    and "set rest \<subseteq> set inps" and "length rest \<le> length inps" and "wo_net w' = wo_net w"
proof -
  obtain ts where ts: "format_ts env (de_timestamp e) = Some ts" using assms by auto
  let ?v = "total_vrows (view_text e) (length (view_text e)) (in_cols inp)"
  obtain r rest s' where r: "run_turns (view_turn (view_title e ts) (view_text e) ?v) inps (0, w) = (r, rest)"
    "r = Next s' \<and> rest = [] \<or> r = Leave s'" "set rest \<subseteq> set inps" "length rest \<le> length inps"
    "wo_net (snd s') = wo_net (snd (0 :: int, w))"
    using view_loop_net[of "view_title e ts" "view_text e" ?v inps "(0, w)"] by blast
  then have "screen_view env inp e inps w = (map_outcome snd r, rest)"
    using ts by (simp add: screen_view_def Let_def)
  then show thesis using that[of "map_outcome snd r" rest "snd s'"] r by auto
qed

context sealed_server
begin

lemma editor_screen_ok:
  assumes "ue_proto env = wp" and "dates_ok env" and "\<forall>inp \<in> set inps. input_ok env inp" and "input_ok env inp"
    and "room tables env (length inps) (wo_net w)" and "format_ts env t \<noteq> None"
    and "i \<le> 0 \<or> i \<in> row_id ` set (mine tables (wo_net w))"
  shows "if screen_calm env inp i x t inps w
    then screen_ok tables env (wo_net w) inps (screen_editor env inp i x t inps w)
    else fst (screen_editor env inp i x t inps w) = Undefined"
proof -
  have ok: "in_calloc inp" "in_realloc inp \<noteq> None" using assms(4) by (auto simp: input_ok_def)
  obtain st where st: "editor_open inp i x t = Next st" using editor_opens[OF ok] by blast
  have e: "editor_inv st" "ed_id st = i" "ed_stamp st = t" using editor_opened[OF st ok(1)] by simp_all
  have on: "editor_on tables env (length inps) (wo_net w) (st, w\<lparr>wo_ixon := False\<rparr>)"
    using e assms(5-7) by (simp add: editor_on_def editor_ready_def)
  have calm: "screen_calm env inp i x t inps w = editor_calm env inps (st, w\<lparr>wo_ixon := False\<rparr>)"
    using st by (simp add: screen_calm_def)
  show ?thesis
  proof (cases "editor_calm env inps (st, w\<lparr>wo_ixon := False\<rparr>)")
    case True
    then obtain r rest s' where r: "editor_loop env inps (st, w\<lparr>wo_ixon := False\<rparr>) = (r, rest)"
      "r = Next s' \<and> rest = [] \<or> r = Leave s'" "set rest \<subseteq> set inps" "editor_on tables env (length rest) (wo_net w) s'"
      using editor_loop_on[OF assms(1,2) on assms(3)] by auto
    then show ?thesis
      using st True calm by (auto simp: screen_editor_def screen_ok_def editor_on_def)
  next
    case False
    then obtain rest where "editor_loop env inps (st, w\<lparr>wo_ixon := False\<rparr>) = (Undefined, rest)"
      using editor_loop_on[OF assms(1,2) on assms(3)] by auto
    then show ?thesis using False calm st by (simp add: screen_editor_def)
  qed
qed

end

lemma after_screen_ok:
  assumes "screen_ok tables env w0 inps r"
  obtains (wait) w where "after_screen st k r = (Next (st, w), [])" and "room tables env 0 (wo_net w)"
      and "same_line tables w0 (wo_net w)"
  | (returned) w rest where "after_screen st k r = (Next (k w), rest)" and "set rest \<subseteq> set inps"
      and "room tables env (length rest) (wo_net w)" and "same_line tables w0 (wo_net w)"
      and "length (mine tables w0) \<le> length (mine tables (wo_net w))"
proof -
  obtain w where w: "fst r = Next w \<and> snd r = [] \<or> fst r = Leave w" "set (snd r) \<subseteq> set inps"
    "room tables env (length (snd r)) (wo_net w)" "same_line tables w0 (wo_net w)"
    "length (mine tables w0) \<le> length (mine tables (wo_net w))"
    using assms by (auto simp: screen_ok_def)
  from w(1) show thesis
  proof
    assume "fst r = Next w \<and> snd r = []"
    then show thesis using wait[of w] w by (cases r) (simp add: after_screen_def)
  next
    assume "fst r = Leave w"
    then show thesis using returned[of w "snd r"] w by (cases r) (simp add: after_screen_def)
  qed
qed

subsection \<open>The list over the connection\<close>

text \<open>The list shows what the server has: the user's entries, opened, newest first.\<close>

definition list_true :: "('d \<Rightarrow> tables) \<Rightarrow> (string \<Rightarrow> bytes option) \<Rightarrow> list_screen \<Rightarrow> 'd wire \<Rightarrow> bool" where
  "list_true tables dec st w \<longleftrightarrow> sorted_wrt newer_first (ls_entries st) \<and>
     mset (ls_entries st) = mset (map (entry_of dec) (mine tables w))"

lemma after_screen_undefined: "fst r = Undefined \<Longrightarrow> fst (after_screen st k r) = Undefined"
  by (cases r) (simp add: after_screen_def)

lemma list_true_entry:
  assumes "list_true tables dec st w" and "e \<in> set (ls_entries st)"
  obtains r where "r \<in> set (mine tables w)" and "de_id e = row_id r" and "de_timestamp e = row_ts r"
proof -
  have "set (ls_entries st) = entry_of dec ` set (mine tables w)"
    using assms(1) by (metis list_true_def set_map set_mset_mset)
  then show thesis using assms(2) that by (auto simp: entry_of_def)
qed

lemma list_true_count: "list_true tables dec st w \<Longrightarrow> length (ls_entries st) = length (mine tables w)"
  by (metis list_true_def length_map size_mset)

definition list_on :: "('d \<Rightarrow> tables) \<Rightarrow> (string \<Rightarrow> bytes option) \<Rightarrow> 'd wire ui_env \<Rightarrow> nat \<Rightarrow> 'd wire \<Rightarrow>
    list_screen \<times> 'd wire world \<Rightarrow> bool" where
  "list_on tables dec env n w0 s \<longleftrightarrow> room tables env n (wo_net (snd s)) \<and> same_line tables w0 (wo_net (snd s)) \<and>
     sel_inv (fst s) \<and> list_true tables dec (fst s) (wo_net (snd s))"

text \<open>A session of the list in which every editor it opens runs calmly.\<close>

definition key_calm :: "'w ui_env \<Rightarrow> ui_input \<Rightarrow> ui_input list \<Rightarrow> list_screen \<times> 'w world \<Rightarrow> bool" where
  "key_calm env inp inps s \<longleftrightarrow>
     (if in_key inp = Byte (CHR ''n'') \<or> in_key inp = Byte (CHR ''N'')
      then screen_calm env inp 0 None (if ue_entry_at env > 0 then ue_entry_at env else in_now inp) inps (snd s)
      else if edits (in_key inp)
      then (case selected_entry (fst s) of
              None \<Rightarrow> True
            | Some e \<Rightarrow> screen_calm env inp (de_id e) (de_text e) (de_timestamp e) inps (snd s))
      else True)"

definition turn_calm :: "'w ui_env \<Rightarrow> ui_input \<Rightarrow> ui_input list \<Rightarrow> list_screen \<times> 'w world \<Rightarrow> bool" where
  "turn_calm env inp inps s \<longleftrightarrow>
     (case list_frame env inp (list_scroll inp (fst s)) (wo_frame (snd s)) of
        None \<Rightarrow> True
      | Some fr \<Rightarrow> key_calm env inp inps ((list_scroll inp (fst s))\<lparr>ls_status := []\<rparr>, (snd s)\<lparr>wo_frame := fr\<rparr>))"

function list_calm :: "'w ui_env \<Rightarrow> ui_input list \<Rightarrow> list_screen \<times> 'w world \<Rightarrow> bool" where
  "list_calm env [] s \<longleftrightarrow> True"
| "list_calm env (inp # inps) s \<longleftrightarrow> turn_calm env inp inps s \<and>
     (case list_turn env inp inps s of (Next s', rest) \<Rightarrow> list_calm env rest s' | _ \<Rightarrow> True)"
  by pat_completeness auto
termination
proof (relation "measure (\<lambda>(env, inps, s). length inps)")
  fix env :: "'w ui_env" and inp inps s x y x1
  assume "(x, y) = list_turn env inp inps s"
  then have "length y \<le> length inps" using list_turn_rest[of env inp inps s] by (metis snd_conv)
  then show "((env, y, x1), env, inp # inps, s) \<in> measure (\<lambda>(env, inps, s). length inps)" by simp
qed simp

text \<open>The whole session: the list is fetched first.\<close>

definition session_calm :: "'w ui_env \<Rightarrow> ui_input list \<Rightarrow> 'w world \<Rightarrow> bool" where
  "session_calm env inps w \<longleftrightarrow> list_calm env inps
     (reload_entries env (\<lparr>ls_entries = [], ls_selected = 0, ls_scroll = 0, ls_status = []\<rparr>, w))"

text \<open>What a turn of the list that goes on leaves: the list again, or a screen that waits for input.\<close>

definition turn_ok :: "('d \<Rightarrow> tables) \<Rightarrow> (string \<Rightarrow> bytes option) \<Rightarrow> 'd wire ui_env \<Rightarrow> 'd wire \<Rightarrow>
    ui_input list \<Rightarrow> (list_screen \<times> 'd wire world) outcome \<times> ui_input list \<Rightarrow> bool" where
  "turn_ok tables dec env w0 inps r \<longleftrightarrow> (\<exists>s'. fst r = Next s' \<and> set (snd r) \<subseteq> set inps \<and>
     (list_on tables dec env (length (snd r)) w0 s' \<or>
      snd r = [] \<and> room tables env 0 (wo_net (snd s')) \<and> same_line tables w0 (wo_net (snd s'))))"

context sealed_server
begin

lemma reload_on:
  assumes "ue_proto env = wp" and "room tables env n (wo_net w)" and "same_line tables w0 (wo_net w)"
  obtains es net where "reload_entries env (st, w) = (st\<lparr>ls_entries := es\<rparr>, w\<lparr>wo_net := net\<rparr>)"
    and "room tables env n net" and "same_line tables w0 net" and "list_true tables dec (st\<lparr>ls_entries := es\<rparr>) net"
    and "length es = length (mine tables (wo_net w))"
proof -
  obtain es net where g: "net_get_entries wp (wo_net w) = (Some es, net)" "room tables env n net"
    "same_line tables (wo_net w) net" "mine tables net = mine tables (wo_net w)"
    "mset es = mset (map (entry_of dec) (mine tables (wo_net w)))" "sorted_wrt newer_first es"
    using get_room[OF assms(2)] .
  have "length es = length (mine tables (wo_net w))" using g(5) by (metis length_map size_mset)
  then show thesis
    using that[of es net] g same_line_trans[OF assms(3) g(3)]
    by (simp add: reload_entries_def assms(1) list_true_def)
qed


lemma selected_on:
  assumes "list_on tables dec env n w0 (st, w)" and "ls_count st > 0"
  obtains e where "selected_entry st = Some e" and "de_id e \<in> row_id ` set (mine tables (wo_net w))"
    and "format_ts env (de_timestamp e) \<noteq> None"
proof -
  have s: "0 \<le> ls_selected st" "ls_selected st < ls_count st"
    using assms by (simp_all add: list_on_def sel_inv_def)
  let ?e = "ls_entries st ! nat (ls_selected st)"
  have "?e \<in> set (ls_entries st)" using s by (intro nth_mem) linarith
  then obtain r where r: "r \<in> set (mine tables (wo_net w))" "de_id ?e = row_id r" "de_timestamp ?e = row_ts r"
    using list_true_entry[of tables dec st "wo_net w" ?e] assms(1) by (auto simp: list_on_def)
  then have "format_ts env (row_ts r) \<noteq> None" using assms(1) by (simp add: list_on_def room_def)
  then show thesis using that[of ?e] s r by (simp add: selected_entry_def)
qed

lemma list_new_on:
  assumes "ue_proto env = wp" and "dates_ok env" and "\<forall>inp \<in> set inps. input_ok env inp" and "input_ok env inp"
    and "list_on tables dec env (length inps) w0 (st, w)"
    and "in_key inp = Byte (CHR ''n'') \<or> in_key inp = Byte (CHR ''N'')"
  shows "if key_calm env inp inps (st, w) then turn_ok tables dec env w0 inps (list_new env inp inps (st, w))
    else fst (list_new env inp inps (st, w)) = Undefined"
proof -
  let ?t = "if ue_entry_at env > 0 then ue_entry_at env else in_now inp"
  have on: "room tables env (length inps) (wo_net w)" "same_line tables w0 (wo_net w)"
    using assms(5) by (simp_all add: list_on_def)
  have "format_ts env ?t \<noteq> None" using assms(2,4) by (simp add: dates_ok_def input_ok_def)
  then have scr: "if screen_calm env inp 0 None ?t inps w
      then screen_ok tables env (wo_net w) inps (screen_editor env inp 0 None ?t inps w)
      else fst (screen_editor env inp 0 None ?t inps w) = Undefined"
    using on(1) by (intro editor_screen_ok[OF assms(1-4)]) simp_all
  have calm: "key_calm env inp inps (st, w) = screen_calm env inp 0 None ?t inps w"
    using assms(6) by (simp add: key_calm_def)
  show ?thesis
  proof (cases "screen_calm env inp 0 None ?t inps w")
    case False
    then show ?thesis using scr calm by (simp add: list_new_def after_screen_undefined)
  next
    case True
    then have ok: "screen_ok tables env (wo_net w) inps (screen_editor env inp 0 None ?t inps w)" using scr by simp
    have "turn_ok tables dec env w0 inps (list_new env inp inps (st, w))"
    proof (cases rule: after_screen_ok[OF ok, of st "\<lambda>w. let (st, w) = reload_entries env (st, w) in
          (st\<lparr>ls_selected := (if ls_count st > 0 then ls_count st - 1 else 0)\<rparr>, w)", case_names wait returned])
      case (wait w1)
      then show ?thesis
        using same_line_trans[OF on(2)] by (auto simp: list_new_def turn_ok_def)
    next
      case (returned w1 rest)
      obtain es net where r: "reload_entries env (st, w1) = (st\<lparr>ls_entries := es\<rparr>, w1\<lparr>wo_net := net\<rparr>)"
        "room tables env (length rest) net" "same_line tables w0 net" "list_true tables dec (st\<lparr>ls_entries := es\<rparr>) net"
        by (rule reload_on[OF assms(1) returned(3) same_line_trans[OF on(2) returned(4)]])
      then show ?thesis
        using returned(1,2) by (simp add: list_new_def turn_ok_def list_on_def list_true_def sel_inv_def)
    qed
    then show ?thesis using True calm by simp
  qed
qed

lemma list_edit_on:
  assumes "ue_proto env = wp" and "dates_ok env" and "\<forall>inp \<in> set inps. input_ok env inp" and "input_ok env inp"
    and "list_on tables dec env (length inps) w0 (st, w)"
    and "edits (in_key inp)"
  shows "if key_calm env inp inps (st, w) then turn_ok tables dec env w0 inps (list_edit env inp inps (st, w))
    else fst (list_edit env inp inps (st, w)) = Undefined"
proof (cases "ls_count st > 0")
  case False
  then have "selected_entry st = None" by (simp add: selected_entry_def)
  then have "key_calm env inp inps (st, w)" using assms(6) by (auto simp: key_calm_def edits_def)
  then show ?thesis using False assms(5) by (simp add: list_edit_def turn_ok_def)
next
  case nonempty: True
  have on: "room tables env (length inps) (wo_net w)" "same_line tables w0 (wo_net w)"
    using assms(5) by (simp_all add: list_on_def)
  obtain e where e: "selected_entry st = Some e" "de_id e \<in> row_id ` set (mine tables (wo_net w))"
    "format_ts env (de_timestamp e) \<noteq> None"
    using selected_on[OF assms(5) nonempty] .
  have scr: "if screen_calm env inp (de_id e) (de_text e) (de_timestamp e) inps w
      then screen_ok tables env (wo_net w) inps (screen_editor env inp (de_id e) (de_text e) (de_timestamp e) inps w)
      else fst (screen_editor env inp (de_id e) (de_text e) (de_timestamp e) inps w) = Undefined"
    using on(1) e by (intro editor_screen_ok[OF assms(1-4)]) simp_all
  have calm: "key_calm env inp inps (st, w) = screen_calm env inp (de_id e) (de_text e) (de_timestamp e) inps w"
    using assms(6) e(1) by (auto simp: key_calm_def edits_def)
  have ed: "list_edit env inp inps (st, w) = after_screen st (\<lambda>w. reload_entries env (st, w))
      (screen_editor env inp (de_id e) (de_text e) (de_timestamp e) inps w)"
    using nonempty e(1) by (simp add: list_edit_def)
  show ?thesis
  proof (cases "screen_calm env inp (de_id e) (de_text e) (de_timestamp e) inps w")
    case False
    then show ?thesis using scr calm by (simp add: ed after_screen_undefined)
  next
    case True
    then have ok: "screen_ok tables env (wo_net w) inps
        (screen_editor env inp (de_id e) (de_text e) (de_timestamp e) inps w)" using scr by simp
    have "turn_ok tables dec env w0 inps (list_edit env inp inps (st, w))"
    proof (cases rule: after_screen_ok[OF ok, of st "\<lambda>w. reload_entries env (st, w)", case_names wait returned])
      case (wait w1)
      then show ?thesis
        using same_line_trans[OF on(2)] by (auto simp: ed turn_ok_def)
    next
      case (returned w1 rest)
      obtain es net where r: "reload_entries env (st, w1) = (st\<lparr>ls_entries := es\<rparr>, w1\<lparr>wo_net := net\<rparr>)"
        "room tables env (length rest) net" "same_line tables w0 net" "list_true tables dec (st\<lparr>ls_entries := es\<rparr>) net"
        "length es = length (mine tables (wo_net w1))"
        by (rule reload_on[OF assms(1) returned(3) same_line_trans[OF on(2) returned(4)]])
      have "length (ls_entries st) \<le> length es"
        using r(5) returned(5) list_true_count[of tables dec st "wo_net w"] assms(5) by (simp add: list_on_def)
      then have "sel_inv (st\<lparr>ls_entries := es\<rparr>)" using assms(5) nonempty by (auto simp: list_on_def sel_inv_def)
      then show ?thesis using r returned(1,2) by (simp add: ed turn_ok_def list_on_def)
    qed
    then show ?thesis using True calm by simp
  qed
qed

lemma list_read_on:
  assumes "list_on tables dec env (length inps) w0 (st, w)"
  shows "turn_ok tables dec env w0 inps (list_read env inp inps (st, w))"
proof (cases "ls_count st > 0")
  case False
  then show ?thesis using assms by (simp add: list_read_def turn_ok_def)
next
  case True
  obtain e where e: "selected_entry st = Some e" "format_ts env (de_timestamp e) \<noteq> None"
    using selected_on[OF assms True] .
  obtain r rest w' where r: "screen_view env inp e inps w = (r, rest)" "r = Next w' \<and> rest = [] \<or> r = Leave w'"
    "set rest \<subseteq> set inps" "length rest \<le> length inps" "wo_net w' = wo_net w"
    using view_screen_net[OF e(2), of inp inps w] .
  have "list_on tables dec env (length rest) w0 (st, w')"
    using assms r(5) room_less[OF _ r(4)] by (auto simp: list_on_def)
  then show ?thesis
    using True e(1) r by (auto simp: list_read_def after_screen_def turn_ok_def)
qed

lemma clamp_on:
  "list_true tables dec (clamp_selected st) w \<longleftrightarrow> list_true tables dec st w"
  by (simp add: clamp_selected_def list_true_def)

lemma list_delete_on:
  assumes "ue_proto env = wp" and "list_on tables dec env (length inps) w0 (st, w)"
  shows "turn_ok tables dec env w0 inps (list_delete env inps (st, w))"
proof (cases "ls_count st > 0")
  case False
  then show ?thesis using assms by (simp add: list_delete_def Let_def turn_ok_def)
next
  case True
  have on: "room tables env (length inps) (wo_net w)" "same_line tables w0 (wo_net w)" "sel_inv st"
    using assms(2) by (simp_all add: list_on_def)
  obtain e where e: "selected_entry st = Some e" "de_id e \<in> row_id ` set (mine tables (wo_net w))"
    using selected_on[OF assms(2) True] .
  show ?thesis
  proof (cases inps)
    case Nil
    then show ?thesis using True e assms(2) by (simp add: list_delete_def Let_def turn_ok_def list_on_def)
  next
    case (Cons conf rest)
    have less: "list_on tables dec env (length rest) w0 (st, w)"
      using assms(2) Cons room_less[of tables env "length inps" "wo_net w" "length rest"] by (simp add: list_on_def)
    show ?thesis
    proof (cases "in_key conf = Byte (CHR ''y'') \<or> in_key conf = Byte (CHR ''Y'')")
      case False
      then show ?thesis using True e less Cons by (auto simp: list_delete_def Let_def turn_ok_def list_on_def)
    next
      case y: True
      obtain rc net where d: "net_delete_entry wp (de_id e) (wo_net w) = (rc, net)" by force
      define st1 where "st1 = st\<lparr>ls_status := (if rc = 0 then ''Entry deleted.'' else ''Error deleting entry.'')\<rparr>"
      define w1 where "w1 = (list_ask w)\<lparr>wo_net := net\<rparr>"
      have dr: "room tables env (length inps) net" "same_line tables (wo_net w) net"
        using delete_room[OF on(1) e(2) d] by simp_all
      have "room tables env (length rest) (wo_net w1)" "same_line tables w0 (wo_net w1)"
        using room_less[OF dr(1)] same_line_trans[OF on(2) dr(2)] Cons by (simp_all add: w1_def)
      from reload_on[OF assms(1) this, of st1] obtain es net2 where
        r: "reload_entries env (st1, w1) = (st1\<lparr>ls_entries := es\<rparr>, w1\<lparr>wo_net := net2\<rparr>)"
        "room tables env (length rest) net2" "same_line tables w0 net2" "list_true tables dec (st1\<lparr>ls_entries := es\<rparr>) net2" .
      have "sel_inv (clamp_selected (st1\<lparr>ls_entries := es\<rparr>))"
        using on(3) by (intro clamp_selected_inv) (simp add: sel_inv_def st1_def)
      moreover have "list_delete env inps (st, w) =
          (Next (clamp_selected (st1\<lparr>ls_entries := es\<rparr>), w1\<lparr>wo_net := net2\<rparr>), rest)"
        using True e(1) Cons y d r(1) unfolding st1_def w1_def by (simp add: list_delete_def Let_def assms(1))
      ultimately show ?thesis
        using r Cons by (auto simp: turn_ok_def list_on_def clamp_on)
    qed
  qed
qed

lemma list_reload_on:
  assumes "ue_proto env = wp" and "list_on tables dec env n w0 (st, w)"
  shows "list_on tables dec env n w0 (list_reload env (st, w))"
proof -
  have on: "room tables env n (wo_net w)" "same_line tables w0 (wo_net w)" "sel_inv st"
    using assms(2) by (simp_all add: list_on_def)
  obtain es net where r: "reload_entries env (st, w) = (st\<lparr>ls_entries := es\<rparr>, w\<lparr>wo_net := net\<rparr>)"
    "room tables env n net" "same_line tables w0 net" "list_true tables dec (st\<lparr>ls_entries := es\<rparr>) net"
    by (rule reload_on[OF assms(1) on(1,2)])
  have "sel_inv (clamp_selected (st\<lparr>ls_entries := es\<rparr>))"
    using on(3) by (intro clamp_selected_inv) (simp add: sel_inv_def)
  moreover have "list_true tables dec (clamp_selected (st\<lparr>ls_entries := es\<rparr>)) net" using r(4) by (simp add: clamp_on)
  ultimately show ?thesis
    using r by (simp add: list_reload_def list_on_def list_true_def sel_inv_def Let_def)
qed


lemma list_turn_on:
  assumes "ue_proto env = wp" and "dates_ok env" and "\<forall>inp \<in> set inps. input_ok env inp" and "input_ok env inp"
    and "list_on tables dec env (Suc (length inps)) w0 s"
  obtains (goes) "turn_calm env inp inps s" "turn_ok tables dec env w0 inps (list_turn env inp inps s)"
  | (quits) s' where "turn_calm env inp inps s" "list_turn env inp inps s = (Leave s', inps)" "list_on tables dec env 0 w0 s'"
  | (stuck) "\<not> turn_calm env inp inps s" "fst (list_turn env inp inps s) = Undefined"
proof -
  obtain st0 w00 where s: "s = (st0, w00)" by force
  have "format_ts env (de_timestamp e) \<noteq> None" if "e \<in> set (ls_entries st0)" for e
    using assms(5) that list_true_entry[of tables dec st0 "wo_net w00" e]
    by (metis list_on_def room_def s fst_conv snd_conv)
  then obtain fr where fr: "list_frame env inp (list_scroll inp st0) (wo_frame w00) = Some fr"
    using list_frame_shown[of "list_scroll inp st0" env inp "wo_frame w00"] by auto
  define st where "st = (list_scroll inp st0)\<lparr>ls_status := []\<rparr>"
  define w where "w = w00\<lparr>wo_frame := fr\<rparr>"
  have t: "list_turn env inp inps s = list_key env inp inps (st, w)"
    using fr by (simp add: list_turn_def s st_def w_def Let_def)
  have calm: "turn_calm env inp inps s = key_calm env inp inps (st, w)"
    using fr by (simp add: turn_calm_def s st_def w_def)
  have other: "turn_calm env inp inps s" if "\<not> edits (in_key inp)" "in_key inp \<noteq> Byte (CHR ''n'')" "in_key inp \<noteq> Byte (CHR ''N'')"
    using that by (simp add: calm key_calm_def)
  have "list_on tables dec env (Suc (length inps)) w0 (st, w)"
    using assms(5) by (simp add: list_on_def s st_def w_def sel_inv_def list_true_def)
  then have on: "list_on tables dec env n w0 (st, w)" if "n \<le> length inps" for n
    using that room_less[of tables env "Suc (length inps)" "wo_net w" n] by (simp add: list_on_def)
  note on_all = on[OF order_refl]
  consider (n) "in_key inp = Byte (CHR ''n'') \<or> in_key inp = Byte (CHR ''N'')" | (e) "edits (in_key inp)"
    | (calm) "\<not> edits (in_key inp)" "in_key inp \<noteq> Byte (CHR ''n'')" "in_key inp \<noteq> Byte (CHR ''N'')"
    by blast
  then show thesis
  proof cases
    case n
    then show thesis
      using list_new_on[OF assms(1-4) on_all n] goes stuck by (auto simp: t calm list_key_open(4) split: if_splits)
  next
    case e
    then show thesis
      using list_edit_on[OF assms(1-4) on_all e] goes stuck by (auto simp: t calm list_key_open(2) split: if_splits)
  next
    case calm
    note goes = goes[OF other[OF calm]] and quits = quits[OF other[OF calm]]
    show thesis
    proof (cases rule: list_key_cases[of env inp inps st w])
      case quit
      then show thesis using quits[of "(st, w)"] on[of 0] by (simp add: t)
    next
      case (move st')
      then have "list_on tables dec env (length inps) w0 (st', w)"
        using on_all by (simp add: list_on_def list_true_def)
      then show thesis using goes move(1) by (auto simp: t turn_ok_def)
    next
      case read
      then show thesis using goes list_read_on[OF on_all] by (simp add: t)
    next
      case delete
      then show thesis using goes list_delete_on[OF assms(1) on_all] by (simp add: t)
    next
      case reload
      then show thesis using goes list_reload_on[OF assms(1) on_all] by (auto simp: t turn_ok_def)
    qed (use calm in auto)
  qed
qed

text \<open>The whole loop: undefined exactly when an editor it opens is; when it is left the list is what the server has.\<close>

lemma list_loop_on:
  assumes "ue_proto env = wp" and "dates_ok env"
  shows "\<forall>inp \<in> set inps. input_ok env inp \<Longrightarrow> list_on tables dec env (length inps) w0 s \<Longrightarrow>
    (if list_calm env inps s
     then \<exists>s'. list_loop env inps s = Next s' \<and> room tables env 0 (wo_net (snd s')) \<and> same_line tables w0 (wo_net (snd s')) \<or>
       list_loop env inps s = Leave s' \<and> list_on tables dec env 0 w0 s'
     else list_loop env inps s = Undefined)"
proof (induction "length inps" arbitrary: inps s rule: less_induct)
  case less
  show ?case
  proof (cases inps)
    case Nil
    then show ?thesis using less.prems by (auto simp: list_on_def)
  next
    case (Cons inp rest)
    have ok: "\<forall>inp \<in> set rest. input_ok env inp" "input_ok env inp" using less.prems(1) Cons by simp_all
    have on: "list_on tables dec env (Suc (length rest)) w0 s" using less.prems(2) Cons by simp
    show ?thesis
    proof (cases rule: list_turn_on[OF assms ok on, case_names goes quits stuck])
      case goes
      then obtain s1 r1 where t: "list_turn env inp rest s = (Next s1, r1)" "set r1 \<subseteq> set rest"
        and n: "list_on tables dec env (length r1) w0 s1 \<or>
          r1 = [] \<and> room tables env 0 (wo_net (snd s1)) \<and> same_line tables w0 (wo_net (snd s1))"
        by (cases "list_turn env inp rest s") (auto simp: turn_ok_def)
      have len: "length r1 < length inps" using list_turn_rest[of env inp rest s] t(1) Cons by simp
      have calm: "list_calm env inps s = list_calm env r1 s1" using goes(1) t(1) Cons by simp
      from n show ?thesis
      proof
        assume on1: "list_on tables dec env (length r1) w0 s1"
        have ok1: "\<forall>inp \<in> set r1. input_ok env inp" using ok(1) t(2) by auto
        show ?thesis using less.hyps[OF len ok1 on1] t(1) Cons unfolding calm by (simp del: split_paired_Ex)
      next
        assume "r1 = [] \<and> room tables env 0 (wo_net (snd s1)) \<and> same_line tables w0 (wo_net (snd s1))"
        then show ?thesis using t(1) Cons unfolding calm by simp
      qed
    next
      case (quits s')
      then show ?thesis using Cons by simp
    next
      case stuck
      then show ?thesis using Cons by (cases "list_turn env inp rest s") simp
    qed
  qed
qed

lemma session_on:
  assumes "ue_proto env = wp" and "dates_ok env" and "\<forall>inp \<in> set inps. input_ok env inp"
    and "room tables env (length inps) (wo_net w)"
  shows "if session_calm env inps w
    then \<exists>s'. screen_list env inps w = Next s' \<and> room tables env 0 (wo_net (snd s')) \<and>
        same_line tables (wo_net w) (wo_net (snd s')) \<or>
      screen_list env inps w = Leave s' \<and> list_on tables dec env 0 (wo_net w) s'
    else screen_list env inps w = Undefined"
proof -
  let ?st = "\<lparr>ls_entries = [], ls_selected = 0, ls_scroll = 0, ls_status = []\<rparr>"
  obtain es net where r: "reload_entries env (?st, w) = (?st\<lparr>ls_entries := es\<rparr>, w\<lparr>wo_net := net\<rparr>)"
    "room tables env (length inps) net" "same_line tables (wo_net w) net"
    "list_true tables dec (?st\<lparr>ls_entries := es\<rparr>) net"
    by (rule reload_on[OF assms(1,4) same_line_refl])
  have "list_on tables dec env (length inps) (wo_net w) (?st\<lparr>ls_entries := es\<rparr>, w\<lparr>wo_net := net\<rparr>)"
    using r by (simp add: list_on_def sel_inv_def)
  from list_loop_on[OF assms(1-3) this] show ?thesis unfolding screen_list_def session_calm_def r(1) .
qed

end

text \<open>
  C4. A session of one client over a server that works, with memory, with room for an entry per key press
  and with dates \<open>localtime\<close> knows, whatever is typed in the list, the editor and the viewer. It runs into
  undefined behaviour exactly when some turn of an editor it opens gets a function key that no branch takes
  there (\<open>KEY_LEFT\<close> at the beginning, \<open>KEY_RIGHT\<close> at the end, or a key the code does not name), which the
  code hands to \<open>isprint\<close>: \<open>session_calm\<close> says that this never happens. Otherwise the client waits for the
  next key or was quit, the connection is in order, and no entry of another user has changed. When the user
  quits, the list on the screen is exactly what the server holds for the user, opened and sorted newest
  first, and the selection is inside it.
\<close>

theorem session_is_safe_and_true:
  assumes "sealed_server sq tables lib enc dec" and "ue_proto env = wire_proto lib sq enc dec"
    and "dates_ok env" and "\<forall>inp \<in> set inps. input_ok env inp"
    and "room tables env (length inps) (wo_net w)"
  shows "(screen_list env inps w = Undefined) = (\<not> session_calm env inps w) \<and>
    (screen_list env inps w = Undefined \<or> (\<exists>s'. (screen_list env inps w = Next s' \<or> screen_list env inps w = Leave s') \<and>
      connected tables (wo_net (snd s')) \<and> wire_user (wo_net (snd s')) = wire_user (wo_net w) \<and>
      (\<forall>u. u \<noteq> wire_user (wo_net w) \<longrightarrow>
        owned u (tables (wire_db (wo_net (snd s')))) = owned u (tables (wire_db (wo_net w)))) \<and>
      (screen_list env inps w = Leave s' \<longrightarrow> sel_inv (fst s') \<and> sorted_wrt newer_first (ls_entries (fst s')) \<and>
        mset (ls_entries (fst s')) =
          mset (map (entry_of dec) (owned (wire_user (wo_net w)) (tables (wire_db (wo_net (snd s')))))))))"
proof (cases "session_calm env inps w")
  case False
  then show ?thesis using sealed_server.session_on[OF assms] by simp
next
  case True
  then obtain s' where s': "screen_list env inps w = Next s' \<and> room tables env 0 (wo_net (snd s')) \<and>
        same_line tables (wo_net w) (wo_net (snd s')) \<or>
      screen_list env inps w = Leave s' \<and> list_on tables dec env 0 (wo_net w) s'"
    using sealed_server.session_on[OF assms] by auto
  then have "room tables env 0 (wo_net (snd s'))" "same_line tables (wo_net w) (wo_net (snd s'))"
    by (auto simp: list_on_def)
  then have "\<exists>s'. (screen_list env inps w = Next s' \<or> screen_list env inps w = Leave s') \<and>
      connected tables (wo_net (snd s')) \<and> wire_user (wo_net (snd s')) = wire_user (wo_net w) \<and>
      (\<forall>u. u \<noteq> wire_user (wo_net w) \<longrightarrow>
        owned u (tables (wire_db (wo_net (snd s')))) = owned u (tables (wire_db (wo_net w)))) \<and>
      (screen_list env inps w = Leave s' \<longrightarrow> sel_inv (fst s') \<and> sorted_wrt newer_first (ls_entries (fst s')) \<and>
        mset (ls_entries (fst s')) =
          mset (map (entry_of dec) (owned (wire_user (wo_net w)) (tables (wire_db (wo_net (snd s')))))))"
    using s' by (intro exI[of _ s']) (auto simp: room_def same_line_def list_on_def list_true_def mine_def)
  then show ?thesis using s' True by auto
qed

text \<open>A session of such keys is calm.\<close>

lemma run_turns_sub: "run_turns turn inps s = (r, rest) \<Longrightarrow> set rest \<subseteq> set inps"
  by (induction inps arbitrary: s) (auto split: outcome.splits)

lemma list_turn_sub: "set (snd (list_turn env inp inps s)) \<subseteq> set inps"
proof -
  have view: "set (snd (screen_view env inp e inps w)) \<subseteq> set inps" for e w
    by (auto simp: screen_view_def Let_def split: option.split prod.split dest: run_turns_sub)
  have edit: "set (snd (screen_editor env inp i x t inps w)) \<subseteq> set inps" for i x t w
    by (auto simp: screen_editor_def editor_loop_def split: outcome.split prod.split dest: run_turns_sub)
  have after: "set (snd r) \<subseteq> set inps \<Longrightarrow> set (snd (after_screen st k r)) \<subseteq> set inps"
    for st :: list_screen and k :: "'a world \<Rightarrow> list_screen \<times> 'a world" and r
    by (auto simp: after_screen_def split: outcome.split prod.split)
  have "set (snd (list_read env inp inps s)) \<subseteq> set inps" for s
    by (simp add: list_read_def after view split: option.split)
  moreover have "set (snd (list_edit env inp inps s)) \<subseteq> set inps" for s
    by (simp add: list_edit_def after edit split: option.split)
  moreover have "set (snd (list_new env inp inps s)) \<subseteq> set inps" for s
    by (simp add: list_new_def after edit)
  moreover have "set (snd (list_delete env inps s)) \<subseteq> set inps" for s
    by (auto simp: list_delete_def Let_def split: option.split prod.split list.split)
  ultimately show ?thesis
    by (simp add: list_turn_def list_key_def Let_def split: option.split prod.split key.split)
qed

lemma calm_session:
  assumes "\<forall>inp \<in> set inps. \<forall>st. \<not> unhandled (in_key inp) st"
  shows "session_calm env inps w"
proof -
  have "list_calm env inps s" for s using assms
  proof (induction env inps s rule: list_calm.induct)
    case (2 env inp inps s)
    have "key_calm env inp inps s" for s
      using calm_keys(2)[of inps] 2(2) by (auto simp: key_calm_def split: option.split)
    then show ?case
      using 2 list_turn_sub[of env inp inps s] by (fastforce simp: turn_calm_def split: option.split prod.split outcome.split)
  qed simp
  then show ?thesis by (simp add: session_calm_def)
qed

definition demo_session :: "ui_input list" where
  "demo_session = map demo_input [Byte (CHR ''n''), Byte (CHR ''h''), KEY_F 2, Byte (CHR 0x1B),
     Byte (CHR ''d''), Byte (CHR ''y''), Byte (CHR ''q'')]"

theorem session_is_safe_and_true_witness:
  "\<exists>s'. (screen_list timed_env demo_session demo_world = Next s' \<or>
      screen_list timed_env demo_session demo_world = Leave s') \<and>
    connected rd_tables (wo_net (snd s')) \<and> wire_user (wo_net (snd s')) = ''a1''"
proof -
  have calm: "session_calm timed_env demo_session demo_world"
    by (rule calm_session) (simp add: demo_session_def)
  have ok: "\<forall>inp \<in> set demo_session. input_ok timed_env inp" and len: "length demo_session < 100"
    by (simp_all add: demo_session_def timed_demo(3))
  have "ue_proto timed_env = demo_proto" by (simp add: demo_env_world)
  from session_is_safe_and_true[OF demo.sealed_server_axioms this timed_demo(2) ok timed_demo(1)[OF len]] calm
  show ?thesis by (auto simp: demo_env_world)
qed

end
