(* ===== verification/Crowd.thy ===== *)
theory Crowd
  imports Session
begin

text \<open>
  One user among others. A client works over its connection while the clients of other identities send
  whatever they like to the same server, in any interleaving. What the user sees is a diary of his own: a
  multiset of entries that only his own calls change (\<open>diary_does\<close>).
\<close>

subsection \<open>What the user asks for and sees\<close>

datatype act = Read | Write string int | Rewrite int string | Erase int | Others event

datatype seen = Listed "diary_entry list option" | Code int | Silent

text \<open>The private diary, with the server's clock for entries without a date.\<close>

inductive diary_does :: "(nat \<Rightarrow> int) \<Rightarrow> act \<Rightarrow> seen \<Rightarrow> diary_entry multiset \<Rightarrow> diary_entry multiset \<Rightarrow> bool"
  for clock where
  read: "mset es = m \<Longrightarrow> sorted_wrt newer_first es \<Longrightarrow> diary_does clock Read (Listed (Some es)) m m"
| written: "0 < i \<Longrightarrow> i \<notin> de_id ` set_mset m \<Longrightarrow> stamp = (if ts > 0 then ts else c_long (clock k)) \<Longrightarrow>
    diary_does clock (Write x ts) (Code i) m
      (add_mset \<lparr>de_id = i, de_timestamp = stamp, de_text = Some (c_str x)\<rparr> m)"
| rewritten: "i \<in> de_id ` set_mset m \<Longrightarrow>
    diary_does clock (Rewrite i x) (Code i) m
      (image_mset (\<lambda>e. if de_id e = i then e\<lparr>de_text := Some (c_str x)\<rparr> else e) m)"
| nothing_to_rewrite: "i \<notin> de_id ` set_mset m \<Longrightarrow> diary_does clock (Rewrite i x) (Code (-1)) m m"
| erased: "i \<in> de_id ` set_mset m \<Longrightarrow>
    diary_does clock (Erase i) (Code 0) m (filter_mset (\<lambda>e. de_id e \<noteq> i) m)"
| nothing_to_erase: "i \<notin> de_id ` set_mset m \<Longrightarrow> diary_does clock (Erase i) (Code (-1)) m m"
| others: "diary_does clock (Others e) Silent m m"

inductive_cases diary_does_elims: "diary_does clock (Read) s m m'" "diary_does clock (Write x ts) s m m'"
  "diary_does clock (Rewrite i x) s m m'" "diary_does clock (Erase i) s m m'"
  "diary_does clock (Others e) s m m'"

inductive diary_runs :: "(nat \<Rightarrow> int) \<Rightarrow> act list \<Rightarrow> seen list \<Rightarrow> diary_entry multiset \<Rightarrow>
    diary_entry multiset \<Rightarrow> bool" for clock where
  done_all: "diary_runs clock [] [] m m"
| next_act: "diary_does clock a s m m1 \<Longrightarrow> diary_runs clock as ss m1 m2 \<Longrightarrow> diary_runs clock (a # as) (s # ss) m m2"

inductive_simps diary_runs_simps [simp]: "diary_runs clock [] ss m m'" "diary_runs clock (a # as) ss m m'"

subsection \<open>The client and the others over the server\<close>

definition with_db :: "'d \<Rightarrow> 'd wire \<Rightarrow> 'd wire" where
  "with_db d w = w\<lparr>wi_peer := (wi_peer w)\<lparr>pe_db := d\<rparr>\<rparr>"

text \<open>The state: the user's connection, and the sessions the server runs for the other connections.\<close>

type_synonym 'd crowd = "'d wire \<times> (nat \<Rightarrow> session option)"

fun act_step :: "'d wire proto \<Rightarrow> server_lib \<Rightarrow> 'd sqlite \<Rightarrow> string \<Rightarrow> (nat \<Rightarrow> string) \<Rightarrow> act \<Rightarrow> 'd crowd \<Rightarrow>
    seen \<times> 'd crowd" where
  "act_step P lib sq path who Read (w, ses) = (let (r, w') = net_get_entries P w in (Listed r, (w', ses)))"
| "act_step P lib sq path who (Write x ts) (w, ses) =
     (let (i, w') = net_post_entry P x ts w in (Code i, (w', ses)))"
| "act_step P lib sq path who (Rewrite i x) (w, ses) =
     (let (rc, w') = net_update_entry P i x w in (Code rc, (w', ses)))"
| "act_step P lib sq path who (Erase i) (w, ses) =
     (let (rc, w') = net_delete_entry P i w in (Code rc, (w', ses)))"
| "act_step P lib sq path who (Others e) (w, ses) =
     (let s = sys_next lib sq path who e \<lparr>sy_db = wire_db w, sy_sessions = ses\<rparr>
      in (Silent, (with_db (sy_db s) w, sy_sessions s)))"

fun act_run :: "'d wire proto \<Rightarrow> server_lib \<Rightarrow> 'd sqlite \<Rightarrow> string \<Rightarrow> (nat \<Rightarrow> string) \<Rightarrow> act list \<Rightarrow> 'd crowd \<Rightarrow>
    seen list \<times> 'd crowd" where
  "act_run P lib sq path who [] c = ([], c)"
| "act_run P lib sq path who (a # as) c =
     (let (s, c1) = act_step P lib sq path who a c; (ss, c2) = act_run P lib sq path who as c1
      in (s # ss, c2))"

text \<open>What the types of the C arguments promise, and that the others are other users.\<close>

fun act_ok :: "(nat \<Rightarrow> string) \<Rightarrow> string \<Rightarrow> act \<Rightarrow> bool" where
  "act_ok who u (Write x ts) = fits_long ts"
| "act_ok who u (Rewrite i x) = fits_int i"
| "act_ok who u (Erase i) = fits_int i"
| "act_ok who u (Others e) = (who (event_conn e) \<noteq> u)"
| "act_ok who u Read = True"

definition diary_of :: "('d \<Rightarrow> tables) \<Rightarrow> (string \<Rightarrow> bytes option) \<Rightarrow> 'd wire \<Rightarrow> diary_entry multiset" where
  "diary_of tables dec w = image_mset (entry_of dec) (mset (mine tables w))"

text \<open>The connection stands, the others' sessions are theirs, and \<open>n\<close> more entries may be listed.\<close>

definition crowd_ok :: "('d \<Rightarrow> tables) \<Rightarrow> (nat \<Rightarrow> string) \<Rightarrow> nat \<Rightarrow> 'd crowd \<Rightarrow> bool" where
  "crowd_ok tables who n c \<longleftrightarrow> connected tables (fst c) \<and> length (mine tables (fst c)) + n \<le> MAX_ENTRIES \<and>
     (\<forall>k se. snd c k = Some se \<longrightarrow> se_user se = who k)"

definition last_id :: "('d \<Rightarrow> tables) \<Rightarrow> 'd crowd \<Rightarrow> int" where
  "last_id tables c = t_seq (tables (wire_db (fst c)))"

lemma diary_ids: "de_id ` set_mset (diary_of tables dec w) = row_id ` set (mine tables w)"
  by (simp add: diary_of_def image_image entry_of_def)

lemma hits_mine: "(\<exists>r \<in> set (t_entries (tables (wire_db w))). hits i (wire_user w) r) \<longleftrightarrow>
    i \<in> row_id ` set (mine tables w)"
  by (auto simp: mine_def owned_def hits_def)

lemma with_db_simps [simp]:
  "wire_db (with_db d w) = d" "wire_user (with_db d w) = wire_user w" "wi_inbox (with_db d w) = wi_inbox w"
  "pe_session (wi_peer (with_db d w)) = pe_session (wi_peer w)"
  "pe_clock (wi_peer (with_db d w)) = pe_clock (wi_peer w)" "with_db d (with_db d' w) = with_db d w"
  by (simp_all add: with_db_def wire_db_def wire_user_def)

text \<open>A call of the client never takes back an id.\<close>

context sealed_server
begin

lemma answer_seq: "server_answer lib sq l p = (out, p') \<Longrightarrow> t_seq (tables (pe_db p)) \<le> t_seq (tables (pe_db p'))"
  using session_line_label apply_op_seq
  by (fastforce simp: server_answer_def split: prod.splits)

lemma send_seq:
  assumes "wire_send lib sq l w = (rc, w')"
  shows "t_seq (tables (wire_db w)) \<le> t_seq (tables (wire_db w'))"
  using assms answer_seq by (auto simp: wire_send_def wire_db_def split: prod.splits)

lemma call_seq:
  "net_post_entry wp x ts w = (i, w') \<Longrightarrow> t_seq (tables (wire_db w)) \<le> t_seq (tables (wire_db w'))"
  "net_update_entry wp j x w = (i, w') \<Longrightarrow> t_seq (tables (wire_db w)) \<le> t_seq (tables (wire_db w'))"
  "net_delete_entry wp j w = (i, w') \<Longrightarrow> t_seq (tables (wire_db w)) \<le> t_seq (tables (wire_db w'))"
  by (force simp: net_post_entry_def net_update_entry_def net_delete_entry_def wire_proto_def wire_db_def
      Let_def dest!: send_seq split: prod.splits option.splits list.splits if_splits)+



lemma recv_rows_peer: "recv_rows wp k w = (r, w') \<Longrightarrow> wi_peer w' = wi_peer w"
  by (induction k arbitrary: w r) (auto simp: wire_proto_def split: prod.splits option.splits list.splits)

lemma get_seq:
  assumes "net_get_entries wp w = (r, w')"
  shows "t_seq (tables (wire_db w)) \<le> t_seq (tables (wire_db w'))"
proof -
  obtain rc w1 where s: "wire_send lib sq ''GET'' w = (rc, w1)" by force
  have "wi_peer w' = wi_peer w1"
    using assms s recv_rows_peer unfolding net_get_entries_def
    by (auto simp: wire_proto_def Let_def split: option.splits list.splits if_splits prod.splits)
  then show ?thesis using send_seq[OF s] by (simp add: wire_db_def)
qed

text \<open>One act of each kind.\<close>

lemma write_does:
  assumes "connected tables w" and "length (mine tables w) + Suc n \<le> MAX_ENTRIES" and "fits_long ts"
    and "net_post_entry wp x ts w = (i, w')" and "t_seq (tables (wire_db w')) < 2 ^ 31 - 2"
  shows "diary_does (pe_clock (wi_peer w)) (Write x ts) (Code i) (diary_of tables dec w) (diary_of tables dec w') \<and>
    connected tables w' \<and> wire_user w' = wire_user w \<and> length (mine tables w') + n \<le> MAX_ENTRIES"
proof -
  have "t_seq (tables (wire_db w)) < 2 ^ 31 - 2" using call_seq(1)[OF assms(4)] assms(5) by simp
  then obtain b w2 where p: "dec b = Some (c_str x)" "net_post_entry wp x ts w = (t_seq (tables (wire_db w)) + 1, w2)"
    "connected tables w2" "wire_user w2 = wire_user w"
    "tables (wire_db w2) = tb_add (t_seq (tables (wire_db w)) + 1) (wire_user w)
      (if ts > 0 then ts else c_long (wire_now w)) b (tables (wire_db w))"
    using post_exact[OF assms(1) _ assms(3) refl, of x] by auto
  have i: "i = t_seq (tables (wire_db w)) + 1" "w' = w2" using assms(4) p(2) by simp_all
  let ?r = "\<lparr>row_id = i, row_owner = wire_user w, row_ts = (if ts > 0 then ts else c_long (wire_now w)), row_data = b\<rparr>"
  have o: "mine tables w' = mine tables w @ [?r]"
    using p i by (simp add: mine_def owned_def tb_add_def)
  have old: "\<forall>j \<in> row_id ` set (mine tables w). j < i" "0 < i"
    using assms(1) i by (force simp: connected_def roomy_def tables_inv_def mine_def owned_def)+
  have "diary_of tables dec w' = add_mset \<lparr>de_id = i, de_timestamp = row_ts ?r, de_text = Some (c_str x)\<rparr>
      (diary_of tables dec w)"
    using p(1) by (simp add: diary_of_def o entry_of_def)
  moreover have "i \<notin> de_id ` set_mset (diary_of tables dec w)" using old(1) unfolding diary_ids by blast
  ultimately have "diary_does (pe_clock (wi_peer w)) (Write x ts) (Code i) (diary_of tables dec w) (diary_of tables dec w')"
    using diary_does.written[OF old(2), of "diary_of tables dec w" "row_ts ?r" ts "pe_clock (wi_peer w)"
        "pe_ticks (wi_peer w)" x] by (simp only: wire_now_def entry_row.select_convs simp_thms)
  then show ?thesis using p i o assms(2) by simp
qed

lemma rewrite_does:
  assumes "connected tables w" and "fits_int i" and "net_update_entry wp i x w = (rc, w')"
  shows "diary_does clock (Rewrite i x) (Code rc) (diary_of tables dec w) (diary_of tables dec w') \<and>
    connected tables w' \<and> wire_user w' = wire_user w \<and> length (mine tables w') = length (mine tables w)"
proof -
  obtain b where p: "dec b = Some (c_str x)" "connected tables w'" "wire_user w' = wire_user w"
    "rc = (if i \<in> row_id ` set (mine tables w) then i else -1)"
    "tables (wire_db w') = tb_update i (wire_user w) b (tables (wire_db w))"
    using update_answered[OF assms(1,2), of x] assms(3) unfolding hits_mine by auto
  have o: "mine tables w' = map (\<lambda>r. if row_id r = i then r\<lparr>row_data := b\<rparr> else r) (mine tables w)"
    using p by (auto simp: mine_def owned_def tb_update_def filter_map o_def hits_def intro!: map_cong filter_cong)
  have d: "diary_of tables dec w' =
      image_mset (\<lambda>e. if de_id e = i then e\<lparr>de_text := Some (c_str x)\<rparr> else e) (diary_of tables dec w)"
    using p(1) by (auto simp: diary_of_def o entry_of_def image_mset.compositionality o_def intro!: image_mset_cong)
  have "diary_does clock (Rewrite i x) (Code rc) (diary_of tables dec w) (diary_of tables dec w')"
  proof (cases "i \<in> row_id ` set (mine tables w)")
    case True
    then show ?thesis
      unfolding d using p(4) diary_does.rewritten[of i "diary_of tables dec w"] by (simp add: diary_ids)
  next
    case False
    then have "mine tables w' = mine tables w" unfolding o by (intro map_idI) auto
    then have "diary_of tables dec w' = diary_of tables dec w" by (simp add: diary_of_def)
    with False show ?thesis
      using p(4) diary_does.nothing_to_rewrite[of i "diary_of tables dec w"] by (simp add: diary_ids)
  qed
  then show ?thesis using p o by simp
qed

lemma erase_does:
  assumes "connected tables w" and "fits_int i" and "net_delete_entry wp i w = (rc, w')"
  shows "diary_does clock (Erase i) (Code rc) (diary_of tables dec w) (diary_of tables dec w') \<and>
    connected tables w' \<and> wire_user w' = wire_user w \<and> length (mine tables w') \<le> length (mine tables w)"
proof -
  have p: "connected tables w'" "wire_user w' = wire_user w"
    "rc = (if i \<in> row_id ` set (mine tables w) then 0 else -1)"
    "tables (wire_db w') = tb_delete i (wire_user w) (tables (wire_db w))"
    using delete_exact[OF assms(1,2)] assms(3) unfolding hits_mine by auto
  have o: "mine tables w' = filter (\<lambda>r. row_id r \<noteq> i) (mine tables w)"
    using p by (auto simp: mine_def owned_def tb_delete_def hits_def intro!: filter_cong)
  have d: "diary_of tables dec w' = filter_mset (\<lambda>e. de_id e \<noteq> i) (diary_of tables dec w)"
    by (simp add: diary_of_def o entry_of_def filter_mset_image_mset o_def)
  have "diary_does clock (Erase i) (Code rc) (diary_of tables dec w) (diary_of tables dec w')"
  proof (cases "i \<in> row_id ` set (mine tables w)")
    case True
    then show ?thesis
      unfolding d using p(3) diary_does.erased[of i "diary_of tables dec w"] by (simp add: diary_ids)
  next
    case False
    then have "mine tables w' = mine tables w" unfolding o by (intro filter_True) auto
    then have "diary_of tables dec w' = diary_of tables dec w" by (simp add: diary_of_def)
    with False show ?thesis
      using p(3) diary_does.nothing_to_erase[of i "diary_of tables dec w"] by (simp add: diary_ids)
  qed
  then show ?thesis using p o by simp
qed

lemma others_do:
  assumes "connected tables w" and "sys_ok who \<lparr>sy_db = wire_db w, sy_sessions = ses\<rparr>"
    and "who (event_conn e) \<noteq> wire_user w"
    and s: "s = sys_next lib sq path who e \<lparr>sy_db = wire_db w, sy_sessions = ses\<rparr>"
    and "t_seq (tables (sy_db s)) < 2 ^ 31 - 1"
  shows "connected tables (with_db (sy_db s) w) \<and> mine tables (with_db (sy_db s) w) = mine tables w \<and> sys_ok who s"
proof -
  obtain op where op: "event_may who e op" "op_allowed op (tables (wire_db w))"
    "tables (sy_db s) = apply_op op (tables (wire_db w))"
    using sys_next_label[OF assms(2), where e = e and lib = lib and path = path] unfolding s by auto
  have "op_user op \<noteq> Some (wire_user w)" using event_may_user[OF op(1)] assms(3) by auto
  then have "owned (wire_user w) (tables (sy_db s)) = owned (wire_user w) (tables (wire_db w))"
    using op(3) apply_op_owned by simp
  moreover have "roomy (tables (sy_db s))"
    using assms(1,5) op apply_op_inv by (simp add: connected_def roomy_def)
  moreover have "sys_ok who s" unfolding s using assms(2) by (rule sys_next_ok)
  ultimately show ?thesis using assms(1) by (simp add: connected_def mine_def)
qed


lemma act_seq:
  assumes "sys_ok who \<lparr>sy_db = wire_db w, sy_sessions = ses\<rparr>" and "act_step wp lib sq path who a (w, ses) = (s, (w', ses'))"
  shows "last_id tables (w, ses) \<le> last_id tables (w', ses') \<and> sys_ok who \<lparr>sy_db = wire_db w', sy_sessions = ses'\<rparr>"
proof (cases a)
  case (Others e)
  define t where "t = sys_next lib sq path who e \<lparr>sy_db = wire_db w, sy_sessions = ses\<rparr>"
  have "w' = with_db (sy_db t) w" "ses' = sy_sessions t" using assms(2) Others by (simp_all add: t_def Let_def)
  moreover have "sys_ok who t" unfolding t_def using assms(1) by (rule sys_next_ok)
  moreover have "t_seq (tables (wire_db w)) \<le> t_seq (tables (sy_db t))"
    using sys_next_label[OF assms(1), where e = e and lib = lib and path = path] apply_op_seq by (auto simp: t_def)
  ultimately show ?thesis by (simp add: last_id_def sys_ok_def)
qed (use assms call_seq get_seq in \<open>fastforce simp: last_id_def sys_ok_def split: prod.splits\<close>)+

lemma act_run_seq:
  assumes "sys_ok who \<lparr>sy_db = wire_db (fst c), sy_sessions = snd c\<rparr>"
    and "act_run wp lib sq path who as c = (ss, c')"
  shows "last_id tables c \<le> last_id tables c'"
  using assms
proof (induction as arbitrary: c ss)
  case (Cons a as)
  obtain s w1 ses1 ss' where step: "act_step wp lib sq path who a (fst c, snd c) = (s, (w1, ses1))"
    and run: "act_run wp lib sq path who as (w1, ses1) = (ss', c')"
    using Cons.prems(2) by (auto split: prod.splits)
  from act_seq[OF Cons.prems(1) step] Cons.IH[OF _ run] show ?case by simp
qed simp

lemma act_does:
  assumes "crowd_ok tables who (Suc n) c" and "act_ok who (wire_user (fst c)) a"
    and "act_step wp lib sq path who a c = (s, c')" and "last_id tables c' < 2 ^ 31 - 2"
  shows "diary_does (pe_clock (wi_peer (fst c))) a s (diary_of tables dec (fst c)) (diary_of tables dec (fst c')) \<and>
    crowd_ok tables who n c' \<and> wire_user (fst c') = wire_user (fst c) \<and>
    pe_clock (wi_peer (fst c')) = pe_clock (wi_peer (fst c))"
proof -
  obtain w ses where c: "c = (w, ses)" by force
  have ok: "connected tables w" "length (mine tables w) + Suc n \<le> MAX_ENTRIES"
    "\<forall>k se. ses k = Some se \<longrightarrow> se_user se = who k"
    using assms(1) c by (simp_all add: crowd_ok_def)
  show ?thesis
  proof (cases a)
    case Read
    have "length (mine tables w) \<le> MAX_ENTRIES" using ok(2) by simp
    from get_kept[OF ok(1) this] obtain es w' where g: "net_get_entries wp w = (Some es, w')" "connected tables w'"
      "wire_user w' = wire_user w" "tables (wire_db w') = tables (wire_db w)"
      "pe_clock (wi_peer w') = pe_clock (wi_peer w)"
      "mset es = mset (map (entry_of dec) (mine tables w))" "sorted_wrt newer_first es" .
    have m: "mine tables w' = mine tables w" using g(3,4) by (simp add: mine_def)
    have "s = Listed (Some es)" "c' = (w', ses)" using assms(3) Read c g(1) by simp_all
    then show ?thesis
      using Read c ok g(2,3,5) m diary_does.read[OF g(6,7)] by (simp add: diary_of_def crowd_ok_def)
  next
    case (Write x ts)
    obtain i w' where p: "net_post_entry wp x ts w = (i, w')" by force
    then have r: "s = Code i" "c' = (w', ses)" using assms(3) Write c by simp_all
    have "t_seq (tables (wire_db w')) < 2 ^ 31 - 2" "fits_long ts" using assms(2,4) r Write by (simp_all add: last_id_def)
    from write_does[OF ok(1,2) this(2) p this(1)] show ?thesis
      using Write r c ok(3) net_clock(1)[OF p] by (simp add: crowd_ok_def)
  next
    case (Rewrite i x)
    obtain rc w' where p: "net_update_entry wp i x w = (rc, w')" by force
    then have r: "s = Code rc" "c' = (w', ses)" using assms(3) Rewrite c by simp_all
    from rewrite_does[OF ok(1) _ p] show ?thesis
      using Rewrite r c ok(2,3) assms(2) net_clock(2)[OF p] by (simp add: crowd_ok_def)
  next
    case (Erase i)
    obtain rc w' where p: "net_delete_entry wp i w = (rc, w')" by force
    then have r: "s = Code rc" "c' = (w', ses)" using assms(3) Erase c by simp_all
    from erase_does[OF ok(1) _ p] show ?thesis
      using Erase r c ok(2,3) assms(2) net_clock(3)[OF p] by (force simp: crowd_ok_def)
  next
    case (Others e)
    define t where "t = sys_next lib sq path who e \<lparr>sy_db = wire_db w, sy_sessions = ses\<rparr>"
    have r: "s = Silent" "c' = (with_db (sy_db t) w, sy_sessions t)"
      using assms(3) Others c by (simp_all add: t_def Let_def)
    from others_do[OF ok(1) _ _ t_def] show ?thesis
      using Others r c ok(2,3) assms(2,4) diary_does.others
      by (simp add: crowd_ok_def sys_ok_def last_id_def diary_of_def)
  qed
qed

lemma act_run_does:
  assumes "crowd_ok tables who (length as) c" and "\<forall>a \<in> set as. act_ok who (wire_user (fst c)) a"
    and "act_run wp lib sq path who as c = (ss, c')" and "last_id tables c' < 2 ^ 31 - 2"
  shows "diary_runs (pe_clock (wi_peer (fst c))) as ss (diary_of tables dec (fst c)) (diary_of tables dec (fst c'))"
  using assms
proof (induction as arbitrary: c ss)
  case (Cons a as)
  obtain s c1 ss' where step: "act_step wp lib sq path who a c = (s, c1)"
    and run: "act_run wp lib sq path who as c1 = (ss', c')" and ss: "ss = s # ss'"
    using Cons.prems(3) by (auto split: prod.splits)
  have "sys_ok who \<lparr>sy_db = wire_db (fst c), sy_sessions = snd c\<rparr>"
    using Cons.prems(1) by (simp add: crowd_ok_def sys_ok_def)
  then have "sys_ok who \<lparr>sy_db = wire_db (fst c1), sy_sessions = snd c1\<rparr>"
    using act_seq[of who "fst c" "snd c" path a s "fst c1" "snd c1"] step by simp
  then have id: "last_id tables c1 < 2 ^ 31 - 2" using act_run_seq[OF _ run] Cons.prems(4) by fastforce
  have d: "diary_does (pe_clock (wi_peer (fst c))) a s (diary_of tables dec (fst c)) (diary_of tables dec (fst c1)) \<and>
    crowd_ok tables who (length as) c1 \<and> wire_user (fst c1) = wire_user (fst c) \<and>
    pe_clock (wi_peer (fst c1)) = pe_clock (wi_peer (fst c))"
    using act_does[OF _ _ step id] Cons.prems(1,2) by simp
  then show ?case using Cons.IH[OF _ _ run Cons.prems(4)] Cons.prems(2) ss by auto
qed simp

end

subsection \<open>The theorem\<close>

text \<open>
  C5. A private diary: whatever the clients of other identities send in between, and however it is
  interleaved with the user's own calls, each call answers as on a diary that only this user changes.
  A list shows exactly the entries of that diary, newest first; a new entry gets an id that no entry of
  the diary has; an update or deletion reaches the entry with that id, and an id that is not in the diary
  (another user's, for instance) is refused. It holds while the ids fit an \<open>int\<close> and the
  diary fits a listing.
\<close>

theorem diary_is_private:
  assumes "sealed_server sq tables lib enc dec" and "connected tables w"
    and "length (mine tables w) + length as \<le> MAX_ENTRIES"
    and "\<forall>k se. ses k = Some se \<longrightarrow> se_user se = who k" and "\<forall>a \<in> set as. act_ok who (wire_user w) a"
    and "act_run (wire_proto lib sq enc dec) lib sq path who as (w, ses) = (ss, (w', ses'))"
    and "t_seq (tables (wire_db w')) < 2 ^ 31 - 2"
  shows "diary_runs (pe_clock (wi_peer w)) as ss (diary_of tables dec w) (diary_of tables dec w')"
  using sealed_server.act_run_does[OF assms(1), where as = as and c = "(w, ses)" and c' = "(w', ses')" and who = who and path = path and ss = ss] assms
  by (simp add: crowd_ok_def last_id_def)

definition demo_acts :: "act list" where
  "demo_acts = [Others (Connect 1), Others (Line 1 (demo_request 9 ''DELETE 1'')), Erase 2, Read]"

definition demo_run :: "seen list \<times> ref_db crowd" where
  "demo_run = act_run demo_proto demo_lib (ref_sqlite False) ''diary.db'' (\<lambda>_. ''b2'') demo_acts (demo_wire, \<lambda>_. None)"

text \<open>An event that is not a POST takes no id.\<close>

lemma event_takes_no_id:
  assumes "sqlite_engine sq tables" and "sys_ok who s"
    and "\<And>k rq. e = Line k rq \<Longrightarrow> parse_command (rq_now rq) (rq_line rq) = Remove i"
  shows "t_seq (tables (sy_db (sys_next lib sq path who e s))) = t_seq (tables (sy_db s))"
proof -
  obtain op where op: "event_may who e op"
    "tables (sy_db (sys_next lib sq path who e s)) = apply_op op (tables (sy_db s))"
    using sqlite_engine.sys_next_label[OF assms(1,2), where e = e and lib = lib and path = path] by blast
  then have "\<forall>j u ts x. op \<noteq> Add j u ts x" using assms(3) by (cases e; cases op) auto
  then show ?thesis unfolding op(2) by (cases op) (simp_all add: table_defs)
qed

lemma demo_delete_line: "parse_command (rq_now (demo_request 9 ''DELETE 1'')) (rq_line (demo_request 9 ''DELETE 1'')) = Remove 1"
  by code_simp

lemma demo_run_seq: "t_seq (rd_tables (wire_db (fst (snd demo_run)))) = 2"
proof -
  let ?s0 = "\<lparr>sy_db = wire_db demo_wire, sy_sessions = (\<lambda>_. None)\<rparr>"
  let ?next = "sys_next demo_lib (ref_sqlite False) ''diary.db'' (\<lambda>_. ''b2'')"
  define s1 where "s1 = ?next (Connect 1) ?s0"
  define s2 where "s2 = ?next (Line 1 (demo_request 9 ''DELETE 1'')) s1"
  have ok0: "sys_ok (\<lambda>_. ''b2'') ?s0" by (simp add: sys_ok_def)
  have ok1: "sys_ok (\<lambda>_. ''b2'') s1" unfolding s1_def by (rule sys_next_ok[OF ok0])
  have q1: "t_seq (rd_tables (sy_db s1)) = 2"
    unfolding s1_def by (subst event_takes_no_id[OF ref.sqlite_engine_axioms ok0]) simp_all
  have q2: "t_seq (rd_tables (sy_db s2)) = 2"
    unfolding s2_def by (subst event_takes_no_id[OF ref.sqlite_engine_axioms ok1, of _ 1]) (simp_all add: q1 demo_delete_line)
  let ?w1 = "with_db (sy_db s1) demo_wire" and ?w2 = "with_db (sy_db s2) demo_wire"
  have c1: "connected rd_tables ?w1" and m1: "length (mine rd_tables ?w1) = 1"
    using demo.others_do[OF demo_connected ok0 _ s1_def] q1 by (simp_all add: mine_def)
  have s1: "\<lparr>sy_db = sy_db s1, sy_sessions = sy_sessions s1\<rparr> = s1" by (cases s1) simp
  have "s2 = ?next (Line 1 (demo_request 9 ''DELETE 1'')) \<lparr>sy_db = wire_db ?w1, sy_sessions = sy_sessions s1\<rparr>"
    by (simp add: s2_def s1)
  from demo.others_do[OF c1 _ _ this] have c2: "connected rd_tables ?w2" "mine rd_tables ?w2 = mine rd_tables ?w1"
    using ok1 q2 by (simp_all add: s1)
  obtain rc w3 where w3: "net_delete_entry demo_proto 2 ?w2 = (rc, w3)" "connected rd_tables w3"
    "length (mine rd_tables w3) \<le> length (mine rd_tables ?w2)"
    using demo.erase_does[OF c2(1), of 2] by (cases "net_delete_entry demo_proto 2 ?w2") (auto simp: fits_int_def)
  have q3: "t_seq (rd_tables (wire_db w3)) = 2"
    using demo.delete_exact[OF c2(1), of 2] w3(1) q2 by (auto simp: fits_int_def tb_delete_def)
  have "length (mine rd_tables w3) \<le> MAX_ENTRIES" using w3(3) c2(2) m1 by (simp add: MAX_ENTRIES_def)
  from demo.get_kept[OF w3(2) this] obtain es w4
    where w4: "net_get_entries demo_proto w3 = (Some es, w4)" "rd_tables (wire_db w4) = rd_tables (wire_db w3)" .
  have next1: "?next (Connect (Suc 0)) \<lparr>sy_db = demo_db, sy_sessions = (\<lambda>_. None)\<rparr> = s1"
    and next2: "?next (Line (Suc 0) (demo_request 9 ''DELETE 1'')) s1 = s2"
    by (simp_all add: s1_def s2_def)
  have "wire_db (fst (snd demo_run)) = wire_db w4"
    using w3(1) w4(1) next1 next2 by (simp add: demo_run_def demo_acts_def s1)
  then show ?thesis using w4(2) q3 by simp
qed

theorem diary_is_private_witness:
  "\<exists>es. fst demo_run = [Silent, Silent, Code (-1), Listed (Some es)] \<and>
     mset es = {#\<lparr>de_id = 1, de_timestamp = 100, de_text = Some ''[could not decrypt]''\<rparr>#}"
proof -
  obtain ss w' ses' where r: "demo_run = (ss, (w', ses'))" using prod_cases3 by blast
  have q: "t_seq (rd_tables (wire_db w')) = 2" using demo_run_seq unfolding r by simp
  have d: "diary_of rd_tables demo_dec demo_wire =
      {#\<lparr>de_id = 1, de_timestamp = 100, de_text = Some ''[could not decrypt]''\<rparr>#}"
    by (simp add: diary_of_def mine_def entry_of_def demo_dec_def)
  have "diary_runs (pe_clock (wi_peer demo_wire)) demo_acts ss (diary_of rd_tables demo_dec demo_wire)
      (diary_of rd_tables demo_dec w')"
    by (rule diary_is_private[OF demo.sealed_server_axioms demo_connected _ _ _ r[unfolded demo_run_def]])
       (use q in \<open>simp_all add: demo_acts_def mine_def MAX_ENTRIES_def fits_int_def\<close>)
  then show ?thesis unfolding d demo_acts_def r by (auto elim!: diary_does_elims)
qed

end
