(* ===== verification/Frames.thy ===== *)
theory Frames
  imports EndToEnd
begin

text \<open>
  Framing seen from the network: the protocol is made of lines, so a reply that contained a newline, or a
  NUL that cuts it, would be read as something else by the client. The rows hold what other lines brought
  in, so this is an invariant of the data, not of a single handler call.
\<close>

definition plain_line :: "string \<Rightarrow> bool" where
  "plain_line l \<longleftrightarrow> CHR 0x0A \<notin> set l \<and> CHR 0x00 \<notin> set l"

text \<open>What the protocol library hands over is one line.\<close>

fun line_event :: "event \<Rightarrow> bool" where
  "line_event (Line k rq) = plain_line (rq_line rq)"
| "line_event e = True"

definition clean_rows :: "tables \<Rightarrow> bool" where
  "clean_rows t \<longleftrightarrow> (\<forall>r \<in> set (t_entries t). plain_line (row_data r))"

fun clean_op :: "table_op \<Rightarrow> bool" where
  "clean_op (Add i u ts x) = plain_line x"
| "clean_op (Update i u x) = plain_line x"
| "clean_op op = True"

lemma plain_line_simps [simp]: "plain_line []" "plain_line (c # l) \<longleftrightarrow> c \<noteq> CHR 0x0A \<and> c \<noteq> CHR 0x00 \<and> plain_line l"
  by (auto simp: plain_line_def)

lemma plain_line_append [simp]: "plain_line (a @ b) \<longleftrightarrow> plain_line a \<and> plain_line b"
  by (auto simp: plain_line_def)

lemma plain_line_cut [simp]: "plain_line l \<Longrightarrow> plain_line (take n l)" "plain_line l \<Longrightarrow> plain_line (drop n l)"
  by (auto simp: plain_line_def dest: in_set_takeD in_set_dropD)

lemma plain_line_show [simp]: "plain_line (show_int x)"
  by (auto simp: plain_line_def is_digit_def dest: show_int_chars)

lemma plain_line_snprintf [simp]: "plain_line l \<Longrightarrow> plain_line (snprintf n l)"
  by (simp add: snprintf_def)

lemma post_fields_clean: "plain_line p \<Longrightarrow> post_fields now p = (ts, x) \<Longrightarrow> plain_line x"
  by (auto simp: post_fields_def Let_def split: option.splits if_splits)

lemma clean_command:
  assumes "plain_line l" and "command_may u (parse_command now l) op"
  shows "clean_op op"
proof (cases "parse_command now l")
  case (Post ts x)
  then obtain ts' where "post_fields now (drop 5 l) = (ts', x)"
    by (auto simp: parse_command_def split: if_splits prod.splits option.splits)
  then have "plain_line x" by (rule post_fields_clean[OF plain_line_cut(2)[OF assms(1)]])
  then show ?thesis using assms(2) Post by auto
next
  case (Change i x)
  then obtain n where "x = drop n (drop 7 l)"
    by (auto simp: parse_command_def simp del: drop_drop split: if_splits prod.splits option.splits)
  then show ?thesis using assms Change by auto
qed (use assms(2) in auto)

lemma clean_rows_apply: "clean_rows t \<Longrightarrow> clean_op op \<Longrightarrow> clean_rows (apply_op op t)"
  by (cases op) (auto simp: clean_rows_def table_defs)

lemma row_format_clean: "plain_line x \<Longrightarrow> plain_line (row_format i ts x)"
  by (simp add: row_format_def)

lemma sys_run_ok: "sys_ok who s \<Longrightarrow> sys_ok who (sys_run lib sq path who es s)"
  unfolding sys_run_def by (induction es arbitrary: s) (simp_all add: sys_next_ok)

context sqlite_engine
begin

lemma listing_clean:
  assumes "clean_rows (tables d)" and "handle_get sq u rq d = (out, d')"
  shows "\<forall>l \<in> set out. plain_line l"
proof (cases "rq_calloc rq")
  case True
  obtain rc col where g: "storage_get_entries sq u (collect_entry (rq_malloc rq)) empty_collect d = (rc, col, d')"
    and out: "out = snprintf 32 (''ENTRIES '' @ show_int (int (ec_count col))) # collected col"
    using True assms(2)
    by (auto simp: handle_get_def empty_collect_def collected_def Let_def split: prod.splits)
  obtain n where "col = fold (\<lambda>r. collect_entry (rq_malloc rq) (c_int (row_id r)) (c_long (row_ts r)) (row_data r))
      (take n (owned u (tables d))) empty_collect"
    using get_cases[OF g] by blast
  then have "\<forall>l \<in> set (collected col). \<exists>r \<in> set (owned u (tables d)). l =
      row_format (c_int (row_id r)) (c_long (row_ts r)) (row_data r)"
    using collect_fold[of empty_collect "rq_malloc rq" "\<lambda>r. c_int (row_id r)" "\<lambda>r. c_long (row_ts r)"
        "take n (owned u (tables d))"]
    by (auto dest!: in_set_takeD)
  then have "\<forall>l \<in> set (collected col). plain_line l"
    using assms(1) row_format_clean by (fastforce simp: clean_rows_def owned_def)
  then show ?thesis unfolding out by simp
qed (use assms(2) in \<open>auto simp: handle_get_def\<close>)

lemma command_replies_clean:
  assumes "clean_rows (tables d)" and "handle_command sq u rq d = (out, d')"
  shows "\<forall>l \<in> set out. plain_line l"
proof (cases "rq_line rq = ''GET''")
  case True
  then show ?thesis using assms listing_clean by (simp add: handle_command_def)
next
  case False
  then show ?thesis
    using assms(2)
    by (auto simp: handle_command_def handle_post_def handle_update_def handle_delete_def Let_def
        split: prod.splits if_splits option.splits)
qed

lemma step_replies_clean:
  assumes "clean_rows (tables (sy_db s))" and "sys_step lib sq path who e s = (out, s')"
  shows "\<forall>l \<in> set out. plain_line l"
proof (cases e)
  case (Connect k)
  then show ?thesis
    using assms(2) by (auto simp: session_open_def split: option.splits prod.splits if_splits)
next
  case (Line k rq)
  show ?thesis
  proof (cases "sy_sessions s k")
    case (Some se)
    obtain d' se' where l: "session_line lib sq se rq (sy_db s) = (out, se', d')"
      using assms(2) Line Some by (auto split: prod.splits)
    show ?thesis
    proof (cases "se_phase se = Serving \<and> rq_line rq \<noteq> ''QUIT''")
      case True
      then show ?thesis using l assms(1) command_replies_clean
        by (auto simp: session_line_def split: prod.splits)
    next
      case False
      then show ?thesis
        using l by (auto simp: session_line_def handle_register_def Let_def
            split: phase.splits prod.splits if_splits option.splits)
    qed
  qed (use assms(2) Line in simp)
next
  case (Hangup k)
  then show ?thesis using assms(2) by (auto split: option.splits prod.splits)
qed

lemma step_keeps_clean:
  assumes "sys_ok who s" and "clean_rows (tables (sy_db s))" and "line_event e"
  shows "clean_rows (tables (sy_db (sys_next lib sq path who e s)))"
proof -
  obtain op where op: "event_may who e op" "tables (sy_db (sys_next lib sq path who e s)) = apply_op op (tables (sy_db s))"
    using sys_next_label[OF assms(1), where e = e and lib = lib and path = path] by blast
  have "clean_op op" using op(1) assms(3) clean_command by (cases e) auto
  then show ?thesis using op(2) assms(2) clean_rows_apply by simp
qed

lemma run_keeps_clean:
  assumes "sys_ok who s" and "clean_rows (tables (sy_db s))" and "\<forall>e \<in> set es. line_event e"
  shows "clean_rows (tables (sy_db (sys_run lib sq path who es s)))"
  using assms
proof (induction es arbitrary: s)
  case (Cons e es)
  then show ?case
    using Cons.IH[of "sys_next lib sq path who e s"] step_keeps_clean[of who s e lib path] sys_next_ok[of who s]
    by (simp add: sys_run_def)
qed (simp add: sys_run_def)

end

text \<open>
  C16. The stream of replies cannot be broken by what users store: when the rows hold single lines and every
  line received is one (as the framing delivers it), then after any run, on every engine, every reply the
  server sends is a single line without a newline or a NUL, and the rows still hold single lines.
\<close>

theorem replies_are_single_lines:
  assumes "sqlite_engine sq tables" and "sys_ok who s"
    and "\<forall>r \<in> set (t_entries (tables (sy_db s))). plain_line (row_data r)"
    and "\<forall>e' \<in> set (es @ [e]). line_event e'"
    and "sys_step lib sq path who e (sys_run lib sq path who es s) = (out, s')"
  shows "(\<forall>l \<in> set out. plain_line l) \<and> (\<forall>r \<in> set (t_entries (tables (sy_db s'))). plain_line (row_data r))"
proof -
  let ?s = "sys_run lib sq path who es s"
  have c: "clean_rows (tables (sy_db ?s))" "sys_ok who ?s"
    using sqlite_engine.run_keeps_clean[OF assms(1,2), of es lib path] assms(2-4) sys_run_ok
    by (simp_all add: clean_rows_def)
  have "s' = sys_next lib sq path who e ?s" using assms(5) by (simp add: sys_next_def)
  then show ?thesis
    using sqlite_engine.step_replies_clean[OF assms(1) c(1) assms(5)]
      sqlite_engine.step_keeps_clean[OF assms(1) c(2,1), of e lib path] assms(4)
    by (simp add: clean_rows_def)
qed

theorem replies_are_single_lines_witness:
  "let s = sys_run demo_lib (ref_sqlite True) ''diary.db'' (\<lambda>_. ''a1'') [Connect 0] (sys_start demo_db)
   in list_all plain_line (fst (sys_step demo_lib (ref_sqlite True) ''diary.db'' (\<lambda>_. ''a1'')
        (Line 0 (demo_request 9 ''GET'')) s))"
proof -
  obtain out s' where s: "sys_step demo_lib (ref_sqlite True) ''diary.db'' (\<lambda>_. ''a1'')
      (Line 0 (demo_request 9 ''GET'')) (sys_run demo_lib (ref_sqlite True) ''diary.db'' (\<lambda>_. ''a1'')
      [Connect 0] (sys_start demo_db)) = (out, s')" by force
  have "\<forall>l \<in> set out. plain_line l"
    using replies_are_single_lines[OF ref.sqlite_engine_axioms sys_ok_start _ _ s]
    by (simp add: sys_start_def demo_defs demo_request_def)
  then show ?thesis unfolding Let_def s by (simp add: list_all_iff)
qed

subsection \<open>The lines the client sends\<close>

text \<open>The protocol library with a tape that records each line handed to it.\<close>

definition taped :: "'w proto \<Rightarrow> ('w \<times> string list) proto" where
  "taped P =
     \<lparr>pr_seal = (\<lambda>t (w, tape). let (r, w') = pr_seal P t w in (r, (w', tape))),
      pr_unseal = pr_unseal P,
      pr_send_line = (\<lambda>l (w, tape). let (rc, w') = pr_send_line P l w in (rc, (w', tape @ [l]))),
      pr_send_prefixed = (\<lambda>p b (w, tape). let (rc, w') = pr_send_prefixed P p b w in (rc, (w', tape @ [p @ b]))),
      pr_recv_line = (\<lambda>n (w, tape). let (r, w') = pr_recv_line P n w in (r, (w', tape))),
      pr_recv_line_dyn = (\<lambda>(w, tape). let (r, w') = pr_recv_line_dyn P w in (r, (w', tape))),
      pr_alloc = (\<lambda>n (w, tape). pr_alloc P n w)\<rparr>"

definition sent :: "'r \<times> 'w \<times> string list \<Rightarrow> string list" where
  "sent result = snd (snd result)"

lemma recv_rows_tape: "recv_rows (taped P) n (w, tape) = (r, (w', tape')) \<Longrightarrow> tape' = tape"
  by (induction n arbitrary: w r) (auto simp: taped_def split: prod.splits option.splits)

lemma post_line_parses:
  assumes "fits_long ts" and "sealed b" and "plain_line b"
  shows "plain_line (post_prefix ts @ b) \<and>
    parse_command now (post_prefix ts @ b) = Post (c_long (if ts > 0 then ts else now)) b"
  using post_fields_sealed[OF assms(1,2), of now] post_prefix_full[OF assms(1)] assms(3)
  by (cases "ts > 0") simp_all

lemma update_line_parses:
  assumes "fits_int i" and "plain_line b"
  shows "plain_line (snprintf 32 (''UPDATE '' @ show_int i @ '' '') @ b) \<and>
    parse_command now (snprintf 32 (''UPDATE '' @ show_int i @ '' '') @ b) = Change i b"
proof -
  have "strchr (show_int i @ CHR '' '' # b) (CHR '' '') = Some (length (show_int i))"
    using show_int_no_space by (rule strchr_append)
  then show ?thesis
    using assms(2) show_int_length_int[OF assms(1)] atoi_show_int_end[OF assms(1)] by (simp add: snprintf_def)
qed

lemma delete_line_parses:
  assumes "fits_int i"
  shows "plain_line (snprintf 32 (''DELETE '' @ show_int i)) \<and>
    parse_command now (snprintf 32 (''DELETE '' @ show_int i)) = Remove i"
  using show_int_length_int[OF assms] atoi_show_int_end[OF assms] by (simp add: snprintf_def)

lemma post_sends:
  "\<exists>rs. sent (net_post_entry (taped P) x ts (w, [])) = rs \<and> (rs = [] \<or>
     (\<exists>b. fst (pr_seal P (c_str x) w) = Some b \<and> rs = [post_prefix ts @ b]))"
  by (simp add: sent_def net_post_entry_def taped_def Let_def split: prod.splits option.splits)

lemma update_sends:
  "\<exists>rs. sent (net_update_entry (taped P) i x (w, [])) = rs \<and> (rs = [] \<or>
     (\<exists>b. fst (pr_seal P (c_str x) w) = Some b \<and> rs = [snprintf 32 (''UPDATE '' @ show_int i @ '' '') @ b]))"
  by (simp add: sent_def net_update_entry_def taped_def Let_def split: prod.splits option.splits)

lemma delete_sends:
  "sent (net_delete_entry (taped P) i (w, [])) = [snprintf 32 (''DELETE '' @ show_int i)]"
  by (simp add: sent_def net_delete_entry_def taped_def Let_def split: prod.splits option.splits)

lemma get_sends: "sent (net_get_entries (taped P) (w, [])) = [''GET'']"
proof -
  obtain rc w1 where s: "pr_send_line (taped P) ''GET'' (w, []) = (rc, (w1, [''GET'']))"
    by (cases "pr_send_line P ''GET'' w") (auto simp: taped_def)
  obtain r w2 where h: "pr_recv_line (taped P) 64 (w1, [''GET'']) = (r, (w2, [''GET'']))"
    by (cases "pr_recv_line P 64 w1") (auto simp: taped_def)
  show ?thesis
    unfolding net_get_entries_def sent_def s Let_def prod.case h
    by (auto dest: recv_rows_tape split: prod.splits option.splits)
qed

definition at_most_one :: "(string \<Rightarrow> bool) \<Rightarrow> string list \<Rightarrow> bool" where
  "at_most_one ok ls \<longleftrightarrow> (case ls of [] \<Rightarrow> True | [l] \<Rightarrow> plain_line l \<and> ok l | _ \<Rightarrow> False)"

text \<open>
  C15. The client's calls and the server's commands mean the same: whatever the network and the peer
  do, each call hands at most one line to the protocol library, that line has no newline or NUL, and the
  server's parser reads it as exactly the command of the call, with its date, id and sealed payload,
  although the first part of the line goes through a buffer of 32 bytes.
\<close>

theorem requests_mean_the_call:
  assumes "\<And>t w' b. fst (pr_seal P t w') = Some b \<Longrightarrow> sealed b \<and> plain_line b"
    and "fits_long ts" and "fits_int i"
  shows "at_most_one (\<lambda>l. \<exists>b. fst (pr_seal P (c_str x) w) = Some b \<and>
        parse_command now l = Post (c_long (if ts > 0 then ts else now)) b)
      (sent (net_post_entry (taped P) x ts (w, []))) \<and>
    at_most_one (\<lambda>l. \<exists>b. fst (pr_seal P (c_str x) w) = Some b \<and> parse_command now l = Change i b)
      (sent (net_update_entry (taped P) i x (w, []))) \<and>
    at_most_one (\<lambda>l. parse_command now l = Remove i) (sent (net_delete_entry (taped P) i (w, []))) \<and>
    at_most_one (\<lambda>l. parse_command now l = Get) (sent (net_get_entries (taped P) (w, [])))"
proof (intro conjI)
  show "at_most_one (\<lambda>l. \<exists>b. fst (pr_seal P (c_str x) w) = Some b \<and>
      parse_command now l = Post (c_long (if ts > 0 then ts else now)) b) (sent (net_post_entry (taped P) x ts (w, [])))"
    using post_sends[of P x ts w] post_line_parses[OF assms(2), of _ now] assms(1)[of "c_str x" w]
    by (auto simp: at_most_one_def simp del: c_long_id)
  show "at_most_one (\<lambda>l. \<exists>b. fst (pr_seal P (c_str x) w) = Some b \<and> parse_command now l = Change i b)
      (sent (net_update_entry (taped P) i x (w, [])))"
    using update_sends[of P i x w] update_line_parses[OF assms(3), of _ now] assms(1)[of "c_str x" w]
    by (auto simp: at_most_one_def)
  show "at_most_one (\<lambda>l. parse_command now l = Remove i) (sent (net_delete_entry (taped P) i (w, [])))"
    using delete_line_parses[OF assms(3), of now] by (simp add: delete_sends at_most_one_def)
  show "at_most_one (\<lambda>l. parse_command now l = Get) (sent (net_get_entries (taped P) (w, [])))"
    by (simp add: get_sends at_most_one_def)
qed

theorem requests_mean_the_call_witness:
  "at_most_one (\<lambda>l. \<exists>b. fst (pr_seal demo_proto ''hi'' demo_wire) = Some b \<and> parse_command 9 l = Post 300 b)
     (sent (net_post_entry (taped demo_proto) ''hi'' 300 (demo_wire, []))) \<and>
   at_most_one (\<lambda>l. parse_command 9 l = Remove (-5)) (sent (net_delete_entry (taped demo_proto) (-5) (demo_wire, [])))"
proof -
  have "sealed b \<and> plain_line b" if "fst (pr_seal demo_proto t w) = Some b" for t w b
  proof -
    have "CHR 0x0A \<notin> set (demo_enc k t)" "CHR 0x00 \<notin> set (demo_enc k t)" for k
      by (rule demo_enc_avoids, simp)+
    then show ?thesis using that demo_enc_ok by (auto simp: wire_proto_def plain_line_def)
  qed
  from requests_mean_the_call[of demo_proto 300 "-5" "''hi''" demo_wire 9, OF this] show ?thesis
    by (simp add: fits_long_def fits_int_def c_long_id c_str_def)
qed

end
