(* ===== verification/Common.thy ===== *)
theory Common
  imports CLib
begin

text \<open>
  The constants of \<open>common/\<close> that client and server share, and the end of line of their messages.
  \<open>MAX_ENTRY_LEN\<close> is declared there as the largest plaintext of an entry; no code reads it.
\<close>

definition DIARY_PORT :: int where "DIARY_PORT = 4242"

definition MAX_ENTRY_LEN :: int where "MAX_ENTRY_LEN = 65536"

definition DIARY_VERSION :: string where "DIARY_VERSION = ''1.1''"

definition nl :: string where "nl = [CHR 0x0A]"

end
