(* ===== verification/ClientMain.thy ===== *)
theory ClientMain
  imports Screens Common
begin

text \<open>
  The client program (\<open>client/main.c\<close>): its options, the date of \<open>--entry-at\<close>, the buffer standard
  input is read into, and \<open>main\<close>. \<open>getopt_long\<close> is given by the list of the options it finds;
  \<open>strptime\<close>, \<open>mktime\<close> and the connection set-up of the protocol library are parameters.
\<close>

definition usage :: "string \<Rightarrow> string" where
  "usage prog =
     ''Usage: '' @ prog @ '' [options]'' @ nl @ nl @
     ''Options:'' @ nl @
     ''  -h HOST        Server address (default: 127.0.0.1)'' @ nl @
     ''  -p PORT        Port           (default: '' @ show_int DIARY_PORT @ '')'' @ nl @
     ''  -a AUTH_SK     Authentication private key (default: auth.key)'' @ nl @
     ''  -e ENC_SK      Encryption private key     (default: enc.key)'' @ nl @
     ''  --entry-at '' @ [CHR 0x22] @ ''YYYY-MM-DD HH:MM'' @ [CHR 0x22] @ nl @
     ''                 Date stored for entries created this session'' @ nl @
     ''                 (default: the server stamps its own date)'' @ nl @
     ''  --post         Read one entry from stdin, save it, print its id'' @ nl @
     ''                 and exit; no TUI (combine with --entry-at)'' @ nl @
     ''  -v             Print version and exit'' @ nl"

subsection \<open>Reading standard input\<close>

text \<open>
  The loop of \<open>read_stdin\<close>. \<open>fread\<close> fills the rest of the block or stops short at the end of the input;
  \<open>al k\<close> is the answer of the \<open>k\<close>-th allocation. A call that reads nothing ends the loop.
\<close>

function read_loop ::
    "(nat \<Rightarrow> (nat \<Rightarrow> char) option) \<Rightarrow> nat \<Rightarrow> bytes \<Rightarrow> bytes \<Rightarrow> nat \<Rightarrow> (bytes \<times> nat) option" where
  "read_loop al k input buf len =
     (let n = min (length buf - len) (length input) in
      if n = 0 then Some (buf, len)
      else
        let buf' = take len buf @ take n input @ drop (len + n) buf; len' = len + n in
        if len' = length buf
        then (case realloc (al k) buf' (2 * length buf) of
                None \<Rightarrow> None
              | Some b \<Rightarrow> read_loop al (k + 1) (drop n input) b len')
        else read_loop al k (drop n input) buf' len')"
  by pat_completeness auto
termination by (relation "measure (\<lambda>(al, k, input, buf, len). length input)") auto

declare read_loop.simps [simp del]

text \<open>\<open>Next None\<close> is the null pointer; the terminating NUL must lie inside the block.\<close>

definition read_stdin :: "(nat \<Rightarrow> (nat \<Rightarrow> char) option) \<Rightarrow> bytes \<Rightarrow> bytes option outcome" where
  "read_stdin al input =
     (case al 0 of
        None \<Rightarrow> Next None
      | Some junk \<Rightarrow>
          (case read_loop al 1 input (map junk [0..<4096]) 0 of
             None \<Rightarrow> Next None
           | Some (buf, len) \<Rightarrow>
               (case store_byte buf len (CHR 0x00) of None \<Rightarrow> Undefined | Some m \<Rightarrow> Next (Some m))))"

subsection \<open>The date of an entry\<close>

record 'tm datelib =
  dl_strptime :: "string \<Rightarrow> string \<Rightarrow> ('tm \<times> string) option"
  dl_isdst :: "int \<Rightarrow> 'tm \<Rightarrow> 'tm"
  dl_mktime :: "'tm \<Rightarrow> int"

definition parse_entry_at :: "'tm datelib \<Rightarrow> string \<Rightarrow> int" where
  "parse_entry_at dl s =
     (case dl_strptime dl s ''%Y-%m-%d %H:%M'' of
        None \<Rightarrow> -1
      | Some (tm, end_) \<Rightarrow>
          if end_ \<noteq> [] then -1
          else let t = dl_mktime dl (dl_isdst dl (-1) tm) in if t = -1 then -1 else t)"

subsection \<open>Options\<close>

datatype client_opt = Opt_h string | Opt_p string | Opt_a string | Opt_e string
  | OPT_ENTRY_AT string | OPT_POST | Opt_v | Opt_unknown

record client_opts =
  co_host :: string
  co_port :: int
  co_auth :: string
  co_enc :: string
  co_entry_at :: int
  co_post :: bool

definition default_opts :: client_opts where
  "default_opts = \<lparr>co_host = ''127.0.0.1'', co_port = DIARY_PORT, co_auth = ''auth.key'',
     co_enc = ''enc.key'', co_entry_at = 0, co_post = False\<rparr>"

text \<open>How the program ends: exit code, standard output, standard error.\<close>

type_synonym exit = "int \<times> string \<times> string"

fun client_options :: "'tm datelib \<Rightarrow> string \<Rightarrow> client_opt list \<Rightarrow> client_opts \<Rightarrow> exit + client_opts" where
  "client_options dl prog [] co = Inr co"
| "client_options dl prog (opt # opts) co =
     (case opt of
        Opt_h x \<Rightarrow> client_options dl prog opts (co\<lparr>co_host := x\<rparr>)
      | Opt_p x \<Rightarrow> client_options dl prog opts (co\<lparr>co_port := atoi x\<rparr>)
      | Opt_a x \<Rightarrow> client_options dl prog opts (co\<lparr>co_auth := x\<rparr>)
      | Opt_e x \<Rightarrow> client_options dl prog opts (co\<lparr>co_enc := x\<rparr>)
      | OPT_ENTRY_AT x \<Rightarrow>
          let t = parse_entry_at dl x in
          if t \<le> 0
          then Inl (1, [], ''Error: invalid --entry-at '' @ [CHR 0x27] @ x @ [CHR 0x27] @ '' (expected '' @
                 [CHR 0x22] @ ''YYYY-MM-DD HH:MM'' @ [CHR 0x22] @ '')'' @ nl)
          else client_options dl prog opts (co\<lparr>co_entry_at := t\<rparr>)
      | OPT_POST \<Rightarrow> client_options dl prog opts (co\<lparr>co_post := True\<rparr>)
      | Opt_v \<Rightarrow> Inl (0, ''diary-client '' @ DIARY_VERSION @ nl, [])
      | Opt_unknown \<Rightarrow> Inl (1, [], usage prog))"

subsection \<open>The program\<close>

record 'w client_lib =
  cl_init :: int
  cl_load_keys :: "string \<Rightarrow> string \<Rightarrow> int"
  cl_connect :: "string \<Rightarrow> string \<Rightarrow> string \<Rightarrow> int \<Rightarrow> 'w \<Rightarrow> int \<times> 'w"
  cl_close :: "'w \<Rightarrow> 'w"

text \<open>
  As for the screens, \<open>Leave\<close> is the end of the program, and \<open>Next\<close> that it waits for a key, with the exit
  code and the output it will end with.
\<close>

text \<open>\<open>--post\<close>: standard input becomes one entry, its id goes to standard output.\<close>

definition post_mode ::
    "'w client_lib \<Rightarrow> 'w ui_env \<Rightarrow> (nat \<Rightarrow> (nat \<Rightarrow> char) option) \<Rightarrow> bytes \<Rightarrow> int \<Rightarrow> 'w world \<Rightarrow>
     (exit \<times> 'w world) outcome" where
  "post_mode cl env al input entry_at w =
     (case read_stdin al input of
        Next None \<Rightarrow> Leave ((1, [], ''Error: could not read entry from stdin'' @ nl),
          w\<lparr>wo_net := cl_close cl (wo_net w)\<rparr>)
      | Next (Some m) \<Rightarrow>
          let (i, net) = net_post_entry (ue_proto env) m entry_at (wo_net w);
              w = w\<lparr>wo_net := cl_close cl net\<rparr>
          in Leave (if i < 0 then (1, [], ''Error: could not save entry'' @ nl) else (0, show_int i @ nl, []), w)
      | _ \<Rightarrow> Undefined)"

definition client_main ::
    "'w client_lib \<Rightarrow> 'tm datelib \<Rightarrow> 'w ui_env \<Rightarrow> string \<Rightarrow> client_opt list \<Rightarrow>
     (nat \<Rightarrow> (nat \<Rightarrow> char) option) \<Rightarrow> bytes \<Rightarrow> ui_input list \<Rightarrow> 'w world \<Rightarrow> (exit \<times> 'w world) outcome" where
  "client_main cl dl env prog opts al input inps w =
     (if cl_init cl \<noteq> 0 then Leave ((1, [], ''Error: could not initialize libsodium'' @ nl), w)
      else
        (case client_options dl prog opts default_opts of
           Inl e \<Rightarrow> Leave (e, w)
         | Inr co \<Rightarrow>
             if cl_load_keys cl (co_auth co) (co_enc co) \<noteq> 0
             then Leave ((1, [], ''Error loading keys.'' @ nl @ ''Generate a key pair with: ./keygen'' @ nl), w)
             else
               let msg = ''Connecting to '' @ co_host co @ '':'' @ show_int (co_port co) @ ''...'' @ nl;
                   (rc, net) = cl_connect cl (co_auth co) (co_enc co) (co_host co) (co_port co) (wo_net w);
                   w = w\<lparr>wo_net := net\<rparr>
               in
               if rc \<noteq> 0 then Leave ((1, [], msg @ ''Error: could not connect or authenticate'' @ nl), w)
               else
                 let msg = msg @ ''Connected.'' @ nl in
                 if co_post co
                 then map_outcome (\<lambda>((code, out, err), w). ((code, out, msg @ err), w))
                        (post_mode cl env al input (co_entry_at co) w)
                 else (case ui_run env (co_entry_at co) inps w of
                         Leave w \<Rightarrow> Leave ((0, [], msg), w\<lparr>wo_net := cl_close cl (wo_net w)\<rparr>)
                       | Next w \<Rightarrow> Next ((0, [], msg), w)
                       | Undefined \<Rightarrow> Undefined)))"

end
