(* ===== verification/ServerMain.thy ===== *)
theory ServerMain
  imports Storage Common
begin

text \<open>
  The server program (\<open>server/main.c\<close>): its arguments, the directory of the database, and \<open>main\<close> up to
  the accept loop of the protocol library. The file system is a parameter with the calls the code makes and the system's
  constant \<open>PATH_MAX\<close>.
\<close>

subsection \<open>The file system\<close>

datatype errno = EOK | EEXIST | EACCES | EPERM | EOTHER int

record 'f os =
  os_path_max :: nat
  os_mkdir :: "string \<Rightarrow> 'f \<Rightarrow> errno \<times> 'f"
  os_stat :: "string \<Rightarrow> 'f \<Rightarrow> bool option"
  os_writable :: "string \<Rightarrow> 'f \<Rightarrow> bool"
  os_exists :: "string \<Rightarrow> 'f \<Rightarrow> bool"
  os_dirname :: "string \<Rightarrow> string"
  os_strerror :: "errno \<Rightarrow> string"

text \<open>
  The loop of \<open>mkdirs\<close> over \<open>i = 1, ..., len\<close>: at a slash and at the end the path so far is made. The
  error number is the result, \<open>EOK\<close> for 0.
\<close>

fun mkdirs_at :: "'f os \<Rightarrow> string \<Rightarrow> nat list \<Rightarrow> 'f \<Rightarrow> errno \<times> 'f" where
  "mkdirs_at os tmp [] f = (EOK, f)"
| "mkdirs_at os tmp (i # js) f =
     (if i = length tmp \<or> tmp ! i = CHR ''/'' then
        let (e, f') = os_mkdir os (take i tmp) f in
        if e \<noteq> EOK \<and> e \<noteq> EEXIST then (e, f') else mkdirs_at os tmp js f'
      else mkdirs_at os tmp js f)"

definition strip_slash :: "string \<Rightarrow> string" where
  "strip_slash tmp = (if last tmp = CHR ''/'' then butlast tmp else tmp)"

definition mkdirs :: "'f os \<Rightarrow> string \<Rightarrow> 'f \<Rightarrow> errno \<times> 'f" where
  "mkdirs os path f =
     (let tmp = snprintf (os_path_max os) path in
      if tmp = [] then (EOK, f)
      else let tmp = strip_slash tmp in mkdirs_at os tmp [1..<length tmp + 1] f)"

text \<open>Result 0 or -1, what goes to standard error, the file system after it.\<close>

definition ensure_db_dir :: "'f os \<Rightarrow> string \<Rightarrow> 'f \<Rightarrow> int \<times> string \<times> 'f" where
  "ensure_db_dir os db_path f =
     (let dir = os_dirname os (snprintf (os_path_max os) db_path) in
      if dir = ''.'' then (0, [], f)
      else
        (case os_stat os dir f of
           None \<Rightarrow>
             let (e, f') = mkdirs os dir f in
             if e = EOK then (0, [], f')
             else if e = EACCES \<or> e = EPERM
             then (-1, ''Error: permission denied creating directory '' @ dir @ nl, f')
             else (-1, ''Error: could not create directory '' @ dir @ '': '' @ os_strerror os e @ nl, f')
         | Some is_dir \<Rightarrow>
             if \<not> is_dir then (-1, ''Error: '' @ dir @ '' exists but is not a directory'' @ nl, f)
             else if \<not> os_writable os dir f
             then (-1, ''Error: no write permission on '' @ dir @ nl, f)
             else (0, [], f)))"

subsection \<open>Arguments\<close>

record server_args =
  sa_port :: int
  sa_db :: "string option"
  sa_key :: "string option"

definition server_usage :: "string \<Rightarrow> string" where
  "server_usage prog = ''Usage: '' @ prog @ '' [-p port] -k pub-key-file -db database-file'' @ nl"

text \<open>The loop over \<open>argv[1], ...\<close>; an option without its value falls through to the usage message.\<close>

fun server_options :: "string \<Rightarrow> string list \<Rightarrow> server_args \<Rightarrow> (int \<times> string \<times> string) + server_args" where
  "server_options prog [] sa = Inr sa"
| "server_options prog [a] sa =
     (if a = ''-v'' then Inl (0, ''diary-server '' @ DIARY_VERSION @ nl, []) else Inl (1, [], server_usage prog))"
| "server_options prog (a # v # args) sa =
     (if a = ''-p'' then server_options prog args (sa\<lparr>sa_port := atoi v\<rparr>)
      else if a = ''-k'' then server_options prog args (sa\<lparr>sa_key := Some v\<rparr>)
      else if a = ''-db'' then server_options prog args (sa\<lparr>sa_db := Some v\<rparr>)
      else if a = ''-v'' then Inl (0, ''diary-server '' @ DIARY_VERSION @ nl, [])
      else Inl (1, [], server_usage prog))"

subsection \<open>The program\<close>

text \<open>
  \<open>proto_serve\<close> blocks; \<open>sr_served\<close> is its call (port, identities allowed, database path), if it was
  reached, and the database handle at that moment.
\<close>

record 'd server_run =
  sr_code :: int
  sr_out :: string
  sr_err :: string
  sr_served :: "(int \<times> string \<times> string) option"
  sr_handle :: bool
  sr_db :: 'd

definition refuse :: "string \<Rightarrow> 'd \<Rightarrow> 'd server_run" where
  "refuse err d = \<lparr>sr_code = 1, sr_out = [], sr_err = err, sr_served = None, sr_handle = False, sr_db = d\<rparr>"

definition server_main ::
    "int \<Rightarrow> (string \<Rightarrow> string option) \<Rightarrow> (int \<Rightarrow> string \<Rightarrow> string \<Rightarrow> int) \<Rightarrow> 'f os \<Rightarrow> 'd sqlite \<Rightarrow>
     string \<Rightarrow> string list \<Rightarrow> 'f \<Rightarrow> 'd \<Rightarrow> 'd server_run" where
  "server_main proto_init load_pubkey serve os sq prog args f d =
     (case server_options prog args \<lparr>sa_port = DIARY_PORT, sa_db = None, sa_key = None\<rparr> of
        Inl (code, out, err) \<Rightarrow>
          \<lparr>sr_code = code, sr_out = out, sr_err = err, sr_served = None, sr_handle = False, sr_db = d\<rparr>
      | Inr sa \<Rightarrow>
          (case sa_key sa of
             None \<Rightarrow> refuse (''Error: -k pub-key-file is required'' @ nl @ server_usage prog) d
           | Some key \<Rightarrow>
               (case sa_db sa of
                  None \<Rightarrow> refuse (''Error: -db database-file is required'' @ nl @ server_usage prog) d
                | Some db_path \<Rightarrow>
                    if proto_init \<noteq> 0 then refuse (''Error: could not initialize libsodium'' @ nl) d
                    else
                      (case load_pubkey key of
                         None \<Rightarrow> refuse [] d
                       | Some allowed \<Rightarrow>
                           let (rc, err, f1) = ensure_db_dir os db_path f in
                           if rc \<noteq> 0 then refuse err d
                           else
                             let db_is_new = \<not> os_exists os db_path f1;
                                 (rc, is_open, d1) = storage_init sq db_path d
                             in
                             if rc \<noteq> 0
                             then (refuse (''Error: could not open database '' @ db_path @ nl) d1)\<lparr>sr_handle := is_open\<rparr>
                             else
                               let (open2, d2) = storage_close sq is_open d1;
                                   out = (if db_is_new then ''Database created at '' else ''Using database '') @
                                     db_path @ nl @ ''Diary server listening on port '' @
                                     show_int (sa_port sa) @ nl;
                                   ok = (serve (sa_port sa) allowed db_path = 0)
                               in
                               \<lparr>sr_code = (if ok then 0 else 1), sr_out = out,
                                sr_err = (if ok then []
                                  else ''Error: could not start server on port '' @ show_int (sa_port sa) @ nl),
                                sr_served = Some (sa_port sa, allowed, db_path),
                                sr_handle = open2, sr_db = d2\<rparr>))))"

end
