(* ===== verification/MainClaims.thy ===== *)
theory MainClaims
  imports ClientMain ServerMain EditorSaving
begin

text \<open>
  The properties of the two programs: reading standard input, \<open>--post\<close> from standard input to the
  database, the date option, the directories of the database and the start of the server.
\<close>

subsection \<open>Standard input\<close>

lemma read_loop_spec:
  "len < length buf \<Longrightarrow> 1 \<le> length buf \<Longrightarrow>
   (case read_loop al k input buf len of
      None \<Rightarrow> \<exists>j \<ge> k. al j = None
    | Some (m, n) \<Rightarrow> n < length m \<and> n = len + length input \<and> take n m = take len buf @ input)"
proof (induction al k input buf len rule: read_loop.induct)
  case (1 al k input buf len)
  let ?n = "min (length buf - len) (length input)"
  let ?buf = "take len buf @ take ?n input @ drop (len + ?n) buf"
  show ?case
  proof (cases "?n = 0")
    case True
    then have "input = []" using 1(3) by (auto simp: min_def split: if_splits)
    then show ?thesis using 1 by (subst read_loop.simps) auto
  next
    case False
    have buf: "length ?buf = length buf" "take (len + ?n) ?buf = take len buf @ take ?n input"
      using 1 by simp_all
    show ?thesis
    proof (cases "len + ?n = length buf")
      case full: True
      show ?thesis
      proof (cases "realloc (al k) ?buf (2 * length buf)")
        case None
        then have "al k = None" by (simp add: realloc_def split: option.splits)
        then show ?thesis using False full None by (subst read_loop.simps) auto
      next
        case (Some b)
        have b: "length b = 2 * length buf" "take (len + ?n) b = take (len + ?n) ?buf"
          using length_realloc[OF Some] take_realloc[OF Some, of "len + ?n"] full buf by simp_all
        have r: "read_loop al k input buf len = read_loop al (k + 1) (drop ?n input) b (len + ?n)"
          using False full Some by (subst read_loop.simps) (simp add: Let_def)
        have "len + ?n < length b" "1 \<le> length b" using b(1) full 1(3) by linarith+
        note ih = "1.IH"(1)[OF refl False refl refl full Some this]
        have eqs: "(len + ?n) + length (drop ?n input) = len + length input"
          "take (len + ?n) b @ drop ?n input = take len buf @ input"
          unfolding b(2) buf(2) by simp_all
        have "\<exists>j \<ge> k + 1. al j = None \<Longrightarrow> \<exists>j \<ge> k. al j = None" by (metis Suc_eq_plus1 Suc_leD)
        then show ?thesis using ih unfolding r eqs
          by (cases "read_loop al (k + 1) (drop ?n input) b (len + ?n)") simp_all
      qed
    next
      case False
      note nf = False
      have r: "read_loop al k input buf len = read_loop al k (drop ?n input) ?buf (len + ?n)"
        by (subst read_loop.simps, unfold Let_def, subst if_not_P[OF \<open>?n \<noteq> 0\<close>], subst if_not_P[OF nf])
          (rule refl)
      have "len + ?n < length ?buf" "1 \<le> length ?buf" using buf(1) nf 1(3,4) by linarith+
      note ih = "1.IH"(2)[OF refl \<open>?n \<noteq> 0\<close> refl refl nf this]
      have eqs: "(len + ?n) + length (drop ?n input) = len + length input"
        "take (len + ?n) ?buf @ drop ?n input = take len buf @ input"
        unfolding buf(2) by simp_all
      show ?thesis using ih unfolding r eqs .
    qed
  qed
qed

lemma read_stdin_spec: "read_stdin al input \<noteq> Undefined \<and>
    (\<forall>m. read_stdin al input = Next (Some m) \<longrightarrow> (\<exists>junk. m = input @ CHR 0x00 # junk)) \<and>
    ((\<forall>k. al k \<noteq> None) \<longrightarrow> (\<exists>m. read_stdin al input = Next (Some m)))"
proof (cases "al 0")
  case None
  then show ?thesis by (auto simp: read_stdin_def)
next
  case (Some junk)
  have spec: "case read_loop al 1 input (map junk [0..<4096]) 0 of
      None \<Rightarrow> \<exists>j \<ge> 1. al j = None
    | Some (m, n) \<Rightarrow> n < length m \<and> n = 0 + length input \<and> take n m = take 0 (map junk [0..<4096]) @ input"
    by (rule read_loop_spec) simp_all
  show ?thesis
  proof (cases "read_loop al 1 input (map junk [0..<4096]) 0")
    case None
    then show ?thesis using spec Some by (auto simp: read_stdin_def)
  next
    case r: (Some mn)
    obtain m n where mn: "mn = (m, n)" by force
    have m: "n < length m" "take n m = input" using spec r mn by auto
    have "m[n := CHR 0x00] = input @ CHR 0x00 # drop (Suc n) m"
      using m by (metis upd_conv_take_nth_drop)
    then show ?thesis using Some r mn m by (auto simp: read_stdin_def store_byte_def)
  qed
qed

lemma c_str_cut: "c_str (input @ CHR 0x00 # junk) = c_str input"
  by (induction input) (auto simp: c_str_def)

text \<open>
  C22. \<open>read_stdin\<close> reads everything and never writes outside its block: for every input and every
  behaviour of the allocator the result is a null pointer or a block that begins with all the bytes of the
  input, NUL bytes included, and a NUL after them, and with memory available it is the block.
\<close>

theorem read_stdin_reads_all:
  "read_stdin al input \<noteq> Undefined \<and>
    (\<forall>m. read_stdin al input = Next (Some m) \<longrightarrow> (\<exists>junk. m = input @ CHR 0x00 # junk)) \<and>
    ((\<forall>k. al k \<noteq> None) \<longrightarrow> (\<exists>m. read_stdin al input = Next (Some m)))"
  by (rule read_stdin_spec)

theorem read_stdin_reads_all_witness:
  "\<exists>junk. read_stdin (\<lambda>_. Some (\<lambda>_. CHR ''?'')) (CHR 0x00 # replicate 5000 (CHR ''x'')) =
     Next (Some ((CHR 0x00 # replicate 5000 (CHR ''x'')) @ CHR 0x00 # junk))"
proof -
  obtain m where m: "read_stdin (\<lambda>_. Some (\<lambda>_. CHR ''?'')) (CHR 0x00 # replicate 5000 (CHR ''x'')) = Next (Some m)"
    using read_stdin_reads_all[of "\<lambda>_. Some (\<lambda>_. CHR ''?'')" "CHR 0x00 # replicate 5000 (CHR ''x'')"] by blast
  then obtain junk where "m = (CHR 0x00 # replicate 5000 (CHR ''x'')) @ CHR 0x00 # junk"
    using read_stdin_reads_all[of "\<lambda>_. Some (\<lambda>_. CHR ''?'')" "CHR 0x00 # replicate 5000 (CHR ''x'')"] by blast
  with m show ?thesis by blast
qed

subsection \<open>The client\<close>

lemma post_mode_core:
  assumes "sealed_server sq tables lib enc dec" and "ue_proto env = wire_proto lib sq enc dec"
    and "cl_init cl = 0" and "client_options dl prog opts default_opts = Inr co" and "co_post co"
    and "cl_load_keys cl (co_auth co) (co_enc co) = 0"
    and "cl_connect cl (co_auth co) (co_enc co) (co_host co) (co_port co) (wo_net w) = (0, net)"
    and "connected tables net" and "t_seq (tables (wire_db net)) < 2 ^ 31 - 2" and "fits_long (co_entry_at co)"
    and "\<forall>k. al k \<noteq> None" and "cl_close cl = (\<lambda>n. n)"
  shows "\<exists>err w' b. client_main cl dl env prog opts al input inps w =
      Leave ((0, show_int (t_seq (tables (wire_db net)) + 1) @ nl, err), w') \<and>
    dec b = Some (c_str input) \<and>
    tables (wire_db (wo_net w')) = tb_add (t_seq (tables (wire_db net)) + 1) (wire_user net)
      (if co_entry_at co > 0 then co_entry_at co else c_long (wire_now net)) b (tables (wire_db net))"
proof -
  obtain m where m: "read_stdin al input = Next (Some m)" "c_str m = c_str input"
    using read_stdin_spec[of al input] assms(11) c_str_cut by metis
  obtain b net2 where b: "dec b = Some (c_str m)" "net_post_entry (ue_proto env) m (co_entry_at co) net =
      (t_seq (tables (wire_db net)) + 1, net2)"
    "tables (wire_db net2) = tb_add (t_seq (tables (wire_db net)) + 1) (wire_user net)
      (if co_entry_at co > 0 then co_entry_at co else c_long (wire_now net)) b (tables (wire_db net))"
    using sealed_server.post_exact[OF assms(1,8,9,10) refl, of m] assms(2) by auto
  have pos: "\<not> t_seq (tables (wire_db net)) + 1 < 0"
    using assms(8) by (simp add: connected_def roomy_def tables_inv_def)
  show ?thesis
    using assms(3-7,12) m b pos by (auto simp: client_main_def post_mode_def Let_def)
qed

definition demo_client :: "ref_db wire client_lib" where
  "demo_client = \<lparr>cl_init = 0, cl_load_keys = (\<lambda>_ _. 0), cl_connect = (\<lambda>_ _ _ _ w. (0, w)), cl_close = (\<lambda>n. n)\<rparr>"

text \<open>A date library for years of four digits in which every date is the same instant.\<close>

definition demo_dates :: "unit datelib" where
  "demo_dates = \<lparr>dl_strptime = (\<lambda>s _. if length s < 16 then None else Some ((), drop 16 s)),
     dl_isdst = (\<lambda>_ tm. tm), dl_mktime = (\<lambda>_. 86400)\<rparr>"

lemma parse_entry_at_range: "parse_entry_at dl s \<noteq> -1 \<Longrightarrow> \<exists>tm. dl_strptime dl s ''%Y-%m-%d %H:%M'' = Some (tm, []) \<and>
    parse_entry_at dl s = dl_mktime dl (dl_isdst dl (-1) tm)"
  by (auto simp: parse_entry_at_def Let_def split: option.splits prod.splits if_splits)

text \<open>
  The date a client sends is valid: when the options are accepted, the date is 0 (the server stamps
  the entry) or it is positive and the date of some \<open>--entry-at\<close> argument that \<open>strptime\<close> consumed to its
  end; a date that is invalid or not after the epoch ends the program with code 1.
\<close>

theorem entry_date_is_valid:
  "(case client_options dl prog opts default_opts of
      Inr co \<Rightarrow> co_entry_at co = 0 \<or> (0 < co_entry_at co \<and>
        (\<exists>s tm. OPT_ENTRY_AT s \<in> set opts \<and> dl_strptime dl s ''%Y-%m-%d %H:%M'' = Some (tm, []) \<and>
          co_entry_at co = dl_mktime dl (dl_isdst dl (-1) tm)))
    | Inl (code, out, err) \<Rightarrow> code = 1 \<or> Opt_v \<in> set opts)"
proof -
  let ?good = "\<lambda>os t. t = 0 \<or> (0 < t \<and> (\<exists>s tm. OPT_ENTRY_AT s \<in> set os \<and>
      dl_strptime dl s ''%Y-%m-%d %H:%M'' = Some (tm, []) \<and> t = dl_mktime dl (dl_isdst dl (-1) tm)))"
  have "(case client_options dl prog os co of
      Inr co' \<Rightarrow> co_entry_at co' = co_entry_at co \<or> ?good os (co_entry_at co')
    | Inl (code, out, err) \<Rightarrow> code = 1 \<or> Opt_v \<in> set os)" for os co
  proof (induction os arbitrary: co)
    case (Cons opt os)
    show ?case
    proof (cases opt)
      case (OPT_ENTRY_AT x)
      show ?thesis
      proof (cases "parse_entry_at dl x \<le> 0")
        case True
        then show ?thesis using OPT_ENTRY_AT by simp
      next
        case False
        then obtain tm where "dl_strptime dl x ''%Y-%m-%d %H:%M'' = Some (tm, [])"
          "parse_entry_at dl x = dl_mktime dl (dl_isdst dl (-1) tm)"
          using parse_entry_at_range[of dl x] by auto
        then show ?thesis
          using Cons[of "co\<lparr>co_entry_at := parse_entry_at dl x\<rparr>"] OPT_ENTRY_AT False
          by (auto simp: Let_def split: sum.splits)
      qed
    next
      case (Opt_h x)
      then show ?thesis using Cons[of "co\<lparr>co_host := x\<rparr>"] by (auto split: sum.splits)
    next
      case (Opt_p x)
      then show ?thesis using Cons[of "co\<lparr>co_port := atoi x\<rparr>"] by (auto split: sum.splits)
    next
      case (Opt_a x)
      then show ?thesis using Cons[of "co\<lparr>co_auth := x\<rparr>"] by (auto split: sum.splits)
    next
      case (Opt_e x)
      then show ?thesis using Cons[of "co\<lparr>co_enc := x\<rparr>"] by (auto split: sum.splits)
    next
      case OPT_POST
      then show ?thesis using Cons[of "co\<lparr>co_post := True\<rparr>"] by (auto split: sum.splits)
    qed simp_all
  qed simp
  from this[of opts default_opts] show ?thesis
    by (auto simp: default_opts_def split: sum.splits)
qed

subsection \<open>The directories of the database\<close>

text \<open>
  The contract of the file system \<open>mkdirs\<close> relies on: making a directory makes it exist, \<open>EEXIST\<close> means
  that something with that name exists, and what exists stays.
\<close>

definition dir_of :: "string \<Rightarrow> string" where
  "dir_of p = rev (drop 1 (dropWhile (\<lambda>c. c \<noteq> CHR ''/'') (rev p)))"

locale file_system =
  fixes os :: "'f os"
  assumes mkdir_made: "os_mkdir os p f = (e, f') \<Longrightarrow> e = EOK \<or> e = EEXIST \<Longrightarrow> os_exists os p f'"
    and mkdir_keeps: "os_mkdir os p f = (e, f') \<Longrightarrow> os_exists os q f \<Longrightarrow> os_exists os q f'"
begin

lemma mkdirs_at_makes:
  "mkdirs_at os tmp js f = (EOK, f') \<Longrightarrow>
   (os_exists os q f \<longrightarrow> os_exists os q f') \<and>
   (\<forall>i \<in> set js. i = length tmp \<or> tmp ! i = CHR ''/'' \<longrightarrow> os_exists os (take i tmp) f')"
proof (induction js arbitrary: f q)
  case (Cons i js)
  show ?case
  proof (cases "i = length tmp \<or> tmp ! i = CHR ''/''")
    case False
    then show ?thesis using Cons by simp
  next
    case True
    obtain e f1 where m: "os_mkdir os (take i tmp) f = (e, f1)" by force
    then have e: "e = EOK \<or> e = EEXIST" and r: "mkdirs_at os tmp js f1 = (EOK, f')"
      using Cons.prems True by (auto split: if_splits)
    have "os_exists os (take i tmp) f1" using mkdir_made[OF m e] .
    then have "os_exists os (take i tmp) f'" using Cons.IH[OF r] by blast
    moreover have "os_exists os q f \<longrightarrow> os_exists os q f'"
      using mkdir_keeps[OF m] Cons.IH[OF r] by blast
    ultimately show ?thesis using Cons.IH[OF r] by auto
  qed
qed simp

end

text \<open>
  A file system in which the program may make directories: a name whose parent exists can be made
  unless it exists, and then the answer is \<open>EEXIST\<close>.
\<close>

locale writable_file_system = file_system +
  assumes mkdir_works: "dir_of p = [] \<or> os_exists os (dir_of p) f \<Longrightarrow>
      fst (os_mkdir os p f) = (if os_exists os p f then EEXIST else EOK)"
begin

lemma dir_of_snoc: "dir_of (p @ [c]) = (if c = CHR ''/'' then p else dir_of p)"
  by (simp add: dir_of_def)

lemma dir_of_take:
  "k \<le> length t \<Longrightarrow> dir_of (take k t) = [] \<or>
   (\<exists>j. 1 \<le> j \<and> j < k \<and> t ! j = CHR ''/'' \<and> dir_of (take k t) = take j t)"
proof (induction k)
  case (Suc k)
  then have e: "take (Suc k) t = take k t @ [t ! k]" by (simp add: take_Suc_conv_app_nth)
  show ?case
  proof (cases "t ! k = CHR ''/''")
    case True
    then have "dir_of (take (Suc k) t) = take k t" unfolding e by (simp add: dir_of_snoc)
    then show ?thesis using True by (cases "k = 0") (auto intro: exI[of _ k])
  next
    case False
    then have "dir_of (take (Suc k) t) = dir_of (take k t)" unfolding e by (simp add: dir_of_snoc)
    then show ?thesis using Suc by (metis Suc_leD less_SucI)
  qed
qed (simp add: dir_of_def)

lemma mkdirs_at_works:
  "k \<le> n + 1 \<Longrightarrow> n = length tmp \<Longrightarrow> 1 \<le> k \<Longrightarrow>
   \<forall>i. 1 \<le> i \<and> i < k \<longrightarrow> tmp ! i = CHR ''/'' \<longrightarrow> os_exists os (take i tmp) f \<Longrightarrow>
   fst (mkdirs_at os tmp [k..<n + 1] f) = EOK"
proof (induction "n + 1 - k" arbitrary: k f)
  case 0
  then show ?case by simp
next
  case (Suc d)
  have d: "d = n + 1 - Suc k" "Suc k \<le> n + 1" using Suc.hyps(2) by linarith+
  then have up: "[k..<n + 1] = k # [Suc k..<n + 1]" by (intro upt_conv_Cons) simp
  show ?case
  proof (cases "k = length tmp \<or> tmp ! k = CHR ''/''")
    case False
    then have "\<forall>i. 1 \<le> i \<and> i < Suc k \<longrightarrow> tmp ! i = CHR ''/'' \<longrightarrow> os_exists os (take i tmp) f"
      using Suc.prems(4) by (auto simp: less_Suc_eq)
    then have "fst (mkdirs_at os tmp [Suc k..<n + 1] f) = EOK"
      using Suc.hyps(1)[OF d Suc.prems(2)] by simp
    then show ?thesis using False unfolding up by simp
  next
    case True
    obtain e f1 where m: "os_mkdir os (take k tmp) f = (e, f1)" by force
    have "dir_of (take k tmp) = [] \<or> os_exists os (dir_of (take k tmp)) f"
      using dir_of_take[of k tmp] Suc.prems d by auto
    then have e: "e = EOK \<or> e = EEXIST" using mkdir_works[of "take k tmp" f] m by (auto split: if_splits)
    have "os_exists os (take k tmp) f1" using mkdir_made[OF m e] .
    then have "\<forall>i. 1 \<le> i \<and> i < Suc k \<longrightarrow> tmp ! i = CHR ''/'' \<longrightarrow> os_exists os (take i tmp) f1"
      using Suc.prems(4) mkdir_keeps[OF m] by (auto simp: less_Suc_eq)
    then have "fst (mkdirs_at os tmp [Suc k..<n + 1] f1) = EOK"
      using Suc.hyps(1)[OF d Suc.prems(2)] by simp
    then show ?thesis using True m e unfolding up by auto
  qed
qed

end

text \<open>A file system of directories only, as the set of their paths.\<close>

definition tree_os :: "string set os" where
  "tree_os = \<lparr>os_path_max = 4096, os_mkdir = (\<lambda>p f. if p \<in> f then (EEXIST, f)
       else if dir_of p = [] \<or> dir_of p \<in> f then (EOK, insert p f) else (EOTHER 2, f)),
     os_stat = (\<lambda>p f. if p \<in> f then Some True else None), os_writable = (\<lambda>_ _. True),
     os_exists = (\<lambda>p f. p \<in> f), os_dirname = dir_of, os_strerror = (\<lambda>_. ''error'')\<rparr>"

interpretation tree: writable_file_system tree_os
  by unfold_locales (auto simp: tree_os_def split: if_splits)

text \<open>
  C36. \<open>mkdirs\<close> is \<open>mkdir -p\<close>: in a file system where the program may make directories it succeeds for
  every path shorter than \<open>PATH_MAX\<close>, and then the path (without its last slash) and every prefix of it that
  ends before a slash exists.
\<close>

theorem mkdirs_makes_path:
  assumes "writable_file_system os" and "path \<noteq> []" and "length path < os_path_max os"
  shows "\<exists>f'. mkdirs os path f = (EOK, f') \<and>
    (\<forall>i. 1 \<le> i \<and> i \<le> length (strip_slash path) \<longrightarrow>
      i = length (strip_slash path) \<or> strip_slash path ! i = CHR ''/'' \<longrightarrow>
      os_exists os (take i (strip_slash path)) f')"
proof -
  let ?t = "strip_slash path"
  have p: "snprintf (os_path_max os) path = path" using assms(3) by (intro snprintf_fits)
  have "fst (mkdirs_at os ?t [1..<length ?t + 1] f) = EOK"
    using writable_file_system.mkdirs_at_works[OF assms(1), of 1 "length ?t" ?t f] by simp
  then obtain f' where f': "mkdirs_at os ?t [1..<length ?t + 1] f = (EOK, f')"
    by (cases "mkdirs_at os ?t [1..<length ?t + 1] f") auto
  have "file_system os" using assms(1) by (rule writable_file_system.axioms(1))
  then have made: "\<forall>i \<in> set [1..<length ?t + 1]. i = length ?t \<or> ?t ! i = CHR ''/'' \<longrightarrow>
      os_exists os (take i ?t) f'"
    using file_system.mkdirs_at_makes[OF _ f'] by blast
  have "mkdirs os path f = (EOK, f')" using assms(2) p f' by (simp add: mkdirs_def Let_def del: upt_Suc)
  moreover have "\<forall>i. 1 \<le> i \<and> i \<le> length ?t \<longrightarrow> i = length ?t \<or> ?t ! i = CHR ''/'' \<longrightarrow>
      os_exists os (take i ?t) f'"
    using made by (simp del: upt_Suc add: less_Suc_eq_le)
  ultimately show ?thesis by blast
qed

theorem mkdirs_makes_path_witness:
  "\<exists>f'. mkdirs tree_os ''/var/lib/diary/'' {} = (EOK, f') \<and> ''/var'' \<in> f' \<and> ''/var/lib/diary'' \<in> f'"
proof -
  have s: "strip_slash ''/var/lib/diary/'' = ''/var/lib/diary''" by (simp add: strip_slash_def)
  obtain f' where f': "mkdirs tree_os ''/var/lib/diary/'' {} = (EOK, f')"
    and all: "\<forall>i. 1 \<le> i \<and> i \<le> length ''/var/lib/diary'' \<longrightarrow>
      i = length ''/var/lib/diary'' \<or> ''/var/lib/diary'' ! i = CHR ''/'' \<longrightarrow>
      os_exists tree_os (take i ''/var/lib/diary'') f'"
    using mkdirs_makes_path[OF tree.writable_file_system_axioms, of "''/var/lib/diary/''" "{}"]
    unfolding s by (auto simp: tree_os_def)
  have "os_exists tree_os (take 4 ''/var/lib/diary'') f'"
    using all[rule_format, of 4] by simp
  moreover have "os_exists tree_os (take 14 ''/var/lib/diary'') f'"
    using all[rule_format, of 14] by simp
  ultimately show ?thesis using f' by (simp add: tree_os_def)
qed

subsection \<open>The start of the server\<close>

text \<open>
  C37. The server accepts clients only when everything is ready, and starting it touches no entry: if it
  reaches its accept loop, the arguments named a key file and a database, the key was loaded, the
  directory of the database is usable, the database opened with its schema and is closed again for the
  forked children; and the tables are as before on every run, whatever its outcome.
\<close>

theorem server_start_is_safe:
  assumes "sqlite_engine sq tables"
    and "run = server_main init load_pubkey serve os sq prog args f d"
  shows "tables (sr_db run) = tables d \<and>
    (\<forall>port allowed path. sr_served run = Some (port, allowed, path) \<longrightarrow>
      \<not> sr_handle run \<and> init = 0 \<and> fst (ensure_db_dir os path f) = 0 \<and> fst (storage_init sq path d) = 0 \<and>
      (\<exists>key. load_pubkey key = Some allowed \<and>
        server_options prog args \<lparr>sa_port = DIARY_PORT, sa_db = None, sa_key = None\<rparr> =
          Inr \<lparr>sa_port = port, sa_db = Some path, sa_key = Some key\<rparr>) \<and>
      (sr_code run = 0 \<longleftrightarrow> serve port allowed path = 0))"
proof (cases "server_options prog args \<lparr>sa_port = DIARY_PORT, sa_db = None, sa_key = None\<rparr>")
  case (Inl e)
  then show ?thesis by (cases e) (simp add: assms(2) server_main_def)
next
  case (Inr sa)
  show ?thesis
  proof (cases "sa_key sa")
    case None
    then show ?thesis by (simp add: assms(2) server_main_def Inr refuse_def)
  next
    case key: (Some key)
    show ?thesis
    proof (cases "sa_db sa")
      case None
      then show ?thesis by (simp add: assms(2) server_main_def Inr key refuse_def)
    next
      case (Some db)
      obtain rc h d1 where i: "storage_init sq db d = (rc, h, d1)" by (cases "storage_init sq db d")
      have t: "tables d1 = tables d" "h" using sqlite_engine.init_keeps[OF assms(1) i] by simp_all
      then have c: "storage_close sq h d1 = (False, sq_close sq d1)" by (simp add: storage_close_def)
      have t2: "tables (sq_close sq d1) = tables d"
        using t(1) sqlite_engine.close_tables[OF assms(1)] by simp
      show ?thesis
        using t(1) t2 key Some unfolding assms(2) server_main_def Inr
        by (cases sa) (auto simp: refuse_def i c Let_def split: option.splits prod.splits)
    qed
  qed
qed

theorem server_start_is_safe_witness:
  "sr_served (server_main 0 (\<lambda>_. Some ''a1'') (\<lambda>_ _ _. 0) tree_os (ref_sqlite True) ''diary-server''
      [''-k'', ''a.pub'', ''-db'', ''/srv/diary.db''] {} demo_db) = Some (4242, ''a1'', ''/srv/diary.db'') \<and>
   rd_tables (sr_db (server_main 0 (\<lambda>_. Some ''a1'') (\<lambda>_ _ _. 0) tree_os (ref_sqlite True) ''diary-server''
      [''-k'', ''a.pub'', ''-db'', ''/srv/diary.db''] {} demo_db)) = demo_tables"
proof -
  let ?r = "server_main 0 (\<lambda>_. Some ''a1'') (\<lambda>_ _ _. 0) tree_os (ref_sqlite True) ''diary-server''
      [''-k'', ''a.pub'', ''-db'', ''/srv/diary.db''] {} demo_db"
  have "snprintf (os_path_max tree_os) ''/srv/diary.db'' = ''/srv/diary.db''" "snprintf (os_path_max tree_os) ''/srv'' = ''/srv''"
    by (simp_all add: snprintf_def tree_os_def)
  moreover have "mkdirs tree_os ''/srv'' {} = (EOK, {''/srv''})"
    by (simp add: mkdirs_def strip_slash_def snprintf_def tree_os_def dir_of_def upt_rec)
  ultimately have "ensure_db_dir tree_os ''/srv/diary.db'' {} = (0, [], {''/srv''})"
    by (simp add: ensure_db_dir_def) (simp add: tree_os_def dir_of_def)
  then have "sr_served ?r = Some (4242, ''a1'', ''/srv/diary.db'')"
    by (simp add: server_main_def DIARY_PORT_def storage_init_def storage_close_def split: prod.splits)
  then show ?thesis
    using server_start_is_safe[OF ref.sqlite_engine_axioms refl, of 0 "\<lambda>_. Some ''a1''" "\<lambda>_ _ _. 0" tree_os True
        "''diary-server''" "[''-k'', ''a.pub'', ''-db'', ''/srv/diary.db'']" "{}" demo_db]
    by (simp add: demo_db_def)
qed

end
