(* ===== verification/Jni.thy ===== *)
theory Jni
  imports CLib
begin

text \<open>
  The native half of the Android client (\<open>diary_crypto.c\<close>): the JNI functions as functions of the Java
  byte arrays. libsodium is a parameter. \<open>Next\<close> is a normal return (\<open>None\<close> for the null reference),
  \<open>Undefined\<close> an access outside an array, or a use of the null reference that \<open>NewByteArray\<close> returns for
  a negative length. The array of a result is made first, with the size the code computes, and what
  libsodium writes goes into it. Arrays are assumed to be pinned or copied successfully.
\<close>

definition AUTH_PK_LEN :: nat where "AUTH_PK_LEN = 32"
definition AUTH_SK_LEN :: nat where "AUTH_SK_LEN = 64"
definition AUTH_SIG_LEN :: nat where "AUTH_SIG_LEN = 64"
definition ENC_PK_LEN :: nat where "ENC_PK_LEN = 32"
definition ENC_SK_LEN :: nat where "ENC_SK_LEN = 32"

text \<open>
  The functions of libsodium give the bytes they write to their output. \<open>so_seal\<close> takes the draw of
  randomness first; \<open>so_seal_open\<close> answers the result code too, and may have written when it is not 0.
\<close>

record sodium =
  so_init :: int
  so_scalarmult_base :: "bytes \<Rightarrow> bytes"
  so_sign_detached :: "bytes \<Rightarrow> bytes \<Rightarrow> bytes"
  so_sealbytes :: nat
  so_seal :: "nat \<Rightarrow> bytes \<Rightarrow> bytes \<Rightarrow> bytes"
  so_seal_open :: "bytes \<Rightarrow> bytes \<Rightarrow> bytes \<Rightarrow> int \<times> bytes"

text \<open>\<open>NewByteArray\<close>: an array of zeros, or the null reference; and bytes written to its beginning.\<close>

definition new_array :: "int \<Rightarrow> bytes option" where
  "new_array n = (if n < 0 then None else Some (replicate (nat n) (CHR 0x00)))"

definition fill_array :: "bytes option \<Rightarrow> bytes \<Rightarrow> bytes outcome" where
  "fill_array array written =
     (case array of
        None \<Rightarrow> Undefined
      | Some m \<Rightarrow> if length written \<le> length m then Next (written @ drop (length written) m) else Undefined)"

definition sodiumInit :: "sodium \<Rightarrow> int" where
  "sodiumInit so = so_init so"

definition authPkFromSk :: "bytes \<Rightarrow> bytes outcome" where
  "authPkFromSk sk =
     (if length sk < 32 + AUTH_PK_LEN then Undefined
      else fill_array (new_array (int AUTH_PK_LEN)) (take AUTH_PK_LEN (drop 32 sk)))"

definition encPkFromSk :: "sodium \<Rightarrow> bytes \<Rightarrow> bytes outcome" where
  "encPkFromSk so sk =
     (if length sk < ENC_SK_LEN then Undefined
      else fill_array (new_array (int ENC_PK_LEN)) (so_scalarmult_base so (take ENC_SK_LEN sk)))"

definition signChallenge :: "sodium \<Rightarrow> bytes \<Rightarrow> bytes \<Rightarrow> bytes outcome" where
  "signChallenge so challenge sk =
     (if length sk < AUTH_SK_LEN then Undefined
      else fill_array (new_array (int AUTH_SIG_LEN)) (so_sign_detached so challenge (take AUTH_SK_LEN sk)))"

definition jni_seal :: "sodium \<Rightarrow> nat \<Rightarrow> bytes \<Rightarrow> bytes \<Rightarrow> bytes outcome" where
  "jni_seal so draw msg pk =
     (let cipher_len = length msg + so_sealbytes so;
          cipher = new_array (c_int (int cipher_len))
      in
      if length pk < ENC_PK_LEN then Undefined
      else fill_array cipher (so_seal so draw msg (take ENC_PK_LEN pk)))"

definition jni_unseal :: "sodium \<Rightarrow> bytes \<Rightarrow> bytes \<Rightarrow> bytes \<Rightarrow> bytes option outcome" where
  "jni_unseal so cipher pk sk =
     (if length cipher < so_sealbytes so then Next None
      else
        let plain_len = length cipher - so_sealbytes so;
            plain = new_array (c_int (int plain_len))
        in
        if length pk < ENC_PK_LEN \<or> length sk < ENC_SK_LEN then Undefined
        else
          let (rc, written) = so_seal_open so cipher (take ENC_PK_LEN pk) (take ENC_SK_LEN sk) in
          map_outcome (\<lambda>m. if rc \<noteq> 0 then None else Some m) (fill_array plain written))"

lemma fill_exact: "length w = n \<Longrightarrow> fill_array (new_array (int n)) w = Next w"
  by (simp add: fill_array_def new_array_def)

text \<open>
  What the documentation of libsodium says: the sizes of its outputs, and that a box sealed to the public
  key of a pair opens with the pair.
\<close>

locale sealed_boxes =
  fixes so :: sodium
  assumes base_length: "length (so_scalarmult_base so sk) = ENC_PK_LEN"
    and sign_length: "length (so_sign_detached so c ask) = AUTH_SIG_LEN"
    and seal_length: "length (so_seal so draw msg pk) = length msg + so_sealbytes so"
    and open_length: "so_sealbytes so \<le> length box \<Longrightarrow> so_seal_open so box pk sk = (rc, m) \<Longrightarrow>
      length m \<le> length box - so_sealbytes so \<and> (rc = 0 \<longrightarrow> length m = length box - so_sealbytes so)"
    and seal_opens: "length sk = ENC_SK_LEN \<Longrightarrow> pk = so_scalarmult_base so sk \<Longrightarrow>
      so_seal_open so (so_seal so draw msg pk) pk sk = (0, msg)"
begin

lemma derived_key:
  assumes "ENC_SK_LEN \<le> length sk"
  shows "encPkFromSk so sk = Next (so_scalarmult_base so (take ENC_SK_LEN sk))"
  using assms base_length[of "take ENC_SK_LEN sk"] by (simp add: encPkFromSk_def fill_exact)

lemma signature:
  "AUTH_SK_LEN \<le> length sk \<Longrightarrow> signChallenge so c sk = Next (so_sign_detached so c (take AUTH_SK_LEN sk))"
  using sign_length[of c "take AUTH_SK_LEN sk"] by (simp add: signChallenge_def fill_exact)

lemma seal_fits:
  assumes "ENC_PK_LEN \<le> length pk" and "length msg + so_sealbytes so < 2 ^ 31"
  shows "jni_seal so draw msg pk = Next (so_seal so draw msg (take ENC_PK_LEN pk))"
proof -
  have "c_int (int (length msg + so_sealbytes so)) = int (length msg + so_sealbytes so)"
    using assms(2) by (intro c_int_id) (simp add: fits_int_def)
  then show ?thesis
    using assms(1) seal_length[of draw msg "take ENC_PK_LEN pk"] by (simp only: jni_seal_def Let_def fill_exact) simp
qed

lemma unseal_fits:
  assumes "so_sealbytes so \<le> length box" and "length box < 2 ^ 31" and "ENC_PK_LEN \<le> length pk"
    and "ENC_SK_LEN \<le> length sk" and "so_seal_open so box (take ENC_PK_LEN pk) (take ENC_SK_LEN sk) = (rc, m)"
  shows "jni_unseal so box pk sk = Next (if rc \<noteq> 0 then None else Some m)"
proof -
  let ?n = "length box - so_sealbytes so"
  have n: "c_int (int ?n) = int ?n" using assms(2) by (intro c_int_id) (simp add: fits_int_def)
  have "length m \<le> ?n" "rc = 0 \<longrightarrow> length m = ?n" using open_length[OF assms(1,5)] by simp_all
  then show ?thesis
    using assms(1,3-5) by (auto simp: jni_unseal_def Let_def n fill_array_def new_array_def simp del: of_nat_diff)
qed

lemma sealed_opens:
  assumes "length sk = ENC_SK_LEN" and "encPkFromSk so sk = Next pk"
    and "length msg + so_sealbytes so < 2 ^ 31"
  shows "\<exists>cipher. jni_seal so draw msg pk = Next cipher \<and> length cipher = length msg + so_sealbytes so \<and>
    jni_unseal so cipher pk sk = Next (Some msg)"
proof -
  have pk: "length pk = ENC_PK_LEN" "pk = so_scalarmult_base so sk"
    using derived_key[of sk] base_length[of sk] assms(1,2) by auto
  let ?box = "so_seal so draw msg pk"
  have len: "length ?box = length msg + so_sealbytes so" by (rule seal_length)
  have "jni_unseal so ?box pk sk = Next (if (0 :: int) \<noteq> 0 then None else Some msg)"
    using seal_opens[OF assms(1) pk(2), of draw msg] len assms(1,3) pk(1) by (intro unseal_fits) simp_all
  then show ?thesis using seal_fits[of pk msg draw] assms(3) pk(1) len by simp
qed

lemma derived_length: "encPkFromSk so sk = Next pk \<Longrightarrow> length pk = ENC_PK_LEN"
  using derived_key[of sk] base_length[of "take ENC_SK_LEN sk"]
  by (cases "length sk < ENC_SK_LEN") (auto simp: encPkFromSk_def)

lemma unseals_inside:
  assumes "ENC_PK_LEN \<le> length pk" and "ENC_SK_LEN \<le> length sk" and "length box < 2 ^ 31"
  shows "\<exists>r. jni_unseal so box pk sk = Next r \<and> (r \<noteq> None \<longrightarrow> length (the r) + so_sealbytes so = length box)"
proof (cases "length box < so_sealbytes so")
  case True
  then show ?thesis by (simp add: jni_unseal_def)
next
  case False
  obtain rc m where m: "so_seal_open so box (take ENC_PK_LEN pk) (take ENC_SK_LEN sk) = (rc, m)" by force
  then show ?thesis
    using False assms open_length[OF _ m] by (simp add: unseal_fits[OF _ _ _ _ m])
qed

lemma arrays_suffice:
  assumes "AUTH_SK_LEN \<le> length ask" and "ENC_PK_LEN \<le> length pk" and "ENC_SK_LEN \<le> length sk"
    and "length msg + so_sealbytes so < 2 ^ 31" and "length box < 2 ^ 31"
  shows "(\<exists>k. authPkFromSk ask = Next k \<and> length k = AUTH_PK_LEN) \<and>
    (\<exists>k. encPkFromSk so sk = Next k \<and> length k = ENC_PK_LEN) \<and>
    (\<exists>s. signChallenge so c ask = Next s \<and> length s = AUTH_SIG_LEN) \<and>
    (\<exists>b. jni_seal so draw msg pk = Next b \<and> length b = length msg + so_sealbytes so) \<and>
    (\<exists>r. jni_unseal so box pk sk = Next r \<and> (r \<noteq> None \<longrightarrow> length (the r) + so_sealbytes so = length box))"
proof (intro conjI)
  show "\<exists>k. authPkFromSk ask = Next k \<and> length k = AUTH_PK_LEN"
    using assms(1) by (simp add: authPkFromSk_def AUTH_PK_LEN_def AUTH_SK_LEN_def fill_array_def new_array_def)
  show "\<exists>r. jni_unseal so box pk sk = Next r \<and> (r \<noteq> None \<longrightarrow> length (the r) + so_sealbytes so = length box)"
    by (rule unseals_inside[OF assms(2,3,5)])
qed (use assms derived_key base_length signature sign_length seal_fits seal_length in auto)

end

text \<open>A libsodium without secrecy, for the witnesses: a box is 48 bytes of padding before the text.\<close>

definition pad_to :: "nat \<Rightarrow> bytes \<Rightarrow> bytes" where
  "pad_to n b = take n (b @ replicate n (CHR ''.''))"

definition clear_sodium :: sodium where
  "clear_sodium = \<lparr>so_init = 0, so_scalarmult_base = pad_to 32, so_sign_detached = (\<lambda>m sk. pad_to 64 sk),
     so_sealbytes = 48, so_seal = (\<lambda>_ m _. replicate 48 (CHR ''*'') @ m),
     so_seal_open = (\<lambda>c _ _. (0, drop 48 c))\<rparr>"

interpretation clear: sealed_boxes clear_sodium
  by unfold_locales (auto simp: clear_sodium_def pad_to_def ENC_SK_LEN_def ENC_PK_LEN_def AUTH_SIG_LEN_def)

text \<open>
  The arrays the native code makes are large enough: with keys of the declared sizes, whatever the
  message, the challenge and the bytes of the box are, no function writes outside the array it made,
  every result has its declared size, and an unsealed text is as long as the box without its overhead.
\<close>

theorem android_arrays_suffice:
  assumes "sealed_boxes so" and "AUTH_SK_LEN \<le> length ask" and "ENC_PK_LEN \<le> length pk"
    and "ENC_SK_LEN \<le> length sk" and "length msg + so_sealbytes so < 2 ^ 31" and "length box < 2 ^ 31"
  shows "(\<exists>k. authPkFromSk ask = Next k \<and> length k = AUTH_PK_LEN) \<and>
    (\<exists>k. encPkFromSk so sk = Next k \<and> length k = ENC_PK_LEN) \<and>
    (\<exists>s. signChallenge so c ask = Next s \<and> length s = AUTH_SIG_LEN) \<and>
    (\<exists>b. jni_seal so draw msg pk = Next b \<and> length b = length msg + so_sealbytes so) \<and>
    (\<exists>r. jni_unseal so box pk sk = Next r \<and> (r \<noteq> None \<longrightarrow> length (the r) + so_sealbytes so = length box))"
  using assms by (rule sealed_boxes.arrays_suffice)

text \<open>
  C38. Sealing and unsealing on Android stay inside the arrays the native code makes, and undo each other.
  With the public key the native code derives from a secret key of 32 bytes, a message that fits a Java
  array with its overhead is sealed into an array of exactly the size of the box; unsealing that box with
  the key pair gives an array with exactly the message; and unsealing whatever bytes arrive as a box writes
  nothing outside the array made for the text: it answers null or a text as long as the box without its
  overhead.
\<close>

theorem android_box_roundtrip:
  assumes "sealed_boxes so" and "length sk = ENC_SK_LEN" and "encPkFromSk so sk = Next pk"
    and "length msg + so_sealbytes so < 2 ^ 31" and "length box < 2 ^ 31"
  shows "(\<exists>cipher. jni_seal so draw msg pk = Next cipher \<and> length cipher = length msg + so_sealbytes so \<and>
      jni_unseal so cipher pk sk = Next (Some msg)) \<and>
    (\<exists>r. jni_unseal so box pk sk = Next r \<and> (r \<noteq> None \<longrightarrow> length (the r) + so_sealbytes so = length box))"
  using sealed_boxes.sealed_opens[OF assms(1-4)] sealed_boxes.unseals_inside[OF assms(1) _ _ assms(5)]
    sealed_boxes.derived_length[OF assms(1,3)] assms(2) by simp

theorem android_box_roundtrip_witness:
  "(\<exists>cipher. jni_seal clear_sodium 0 ''hello'' (replicate 32 (CHR ''k'')) = Next cipher \<and> length cipher = 53 \<and>
      jni_unseal clear_sodium cipher (replicate 32 (CHR ''k'')) (replicate 32 (CHR ''k'')) = Next (Some ''hello'')) \<and>
   (\<exists>r. jni_unseal clear_sodium (replicate 50 (CHR ''x'')) (replicate 32 (CHR ''k'')) (replicate 32 (CHR ''k'')) =
      Next r)"
proof -
  have "encPkFromSk clear_sodium (replicate 32 (CHR ''k'')) = Next (replicate 32 (CHR ''k''))"
    using clear.derived_key[of "replicate 32 (CHR ''k'')"] by (simp add: ENC_SK_LEN_def clear_sodium_def pad_to_def)
  from android_box_roundtrip[OF clear.sealed_boxes_axioms _ this, of "''hello''" "replicate 50 (CHR ''x'')" 0]
  show ?thesis by (auto simp: ENC_SK_LEN_def clear_sodium_def)
qed

end
