(* ===== verification/Spec2Isabelle.thy ===== *)
theory Spec2Isabelle
  imports EditorRefines Crowd Frames MainClaims Jni
begin

text \<open>
  A model of the diary, an end-to-end encrypted journal in C, and the theorems that make it correct.

  \<^bold>\<open>The program.\<close> A terminal client (\<open>client/main.c\<close>, \<open>client/ui.c\<close>, \<open>client/net.c\<close>) edits entries,
  seals each text to the user's own key and sends it in one line of a text protocol. A server
  (\<open>server/main.c\<close>, \<open>server/client_handler.c\<close>, \<open>server/storage.c\<close>) forks one handler for each connection;
  the handlers share one SQLite file. An Android application has its cryptography in C
  (\<open>diary_crypto.c\<close>). The protocol library (framing, authentication, sealing, the accept loop), SQLite,
  libsodium, ncurses and the operating system are not part of the repository.

  \<^bold>\<open>The theories.\<close>
  \<^item> Prelude: byte strings; \<open>outcome\<close>, how a turn of a loop ends (\<open>Next\<close>: it goes on, \<open>Leave\<close>: the loop is
    left, \<open>Undefined\<close>: undefined behaviour of C); \<open>run_turns\<close>, a loop that takes one input in each turn.
  \<^item> CLib: what the code uses of the C library: conversions between \<open>int\<close>, \<open>long\<close> and decimal strings,
    \<open>snprintf\<close> with its cut, \<open>strchr\<close>, \<open>strtok_r\<close>, memory blocks in which an access out of bounds is an
    outcome. Common: \<open>common/diary.h\<close> and \<open>common/version.h\<close>.
  \<^item> Storage: \<open>storage.c\<close>, function by function, over SQLite as a record of its entry points; the two tables
    as the code means them, and the locale \<open>sqlite_engine\<close>, the contract of an engine that may fail at any
    statement. StorageProps: \<open>sqlite_available\<close>, an engine that does not fail; a reference engine and the
    interpretations on it; \<open>table_machine\<close>, what follows for any system whose steps are the allowed
    operations on the tables.
  \<^item> Handler: \<open>diary_handle\<close>, once as the code has it (a function of the lines it receives) and once as a
    session that stops at each read, so that connections can be interleaved. HandlerProps: the command
    of a line and its specification, the rows of a listing, the two forms compared. System: the server
    with all its connections, one event at a time, its reachable states and their invariants.
    ServerClaims: the properties of the server.
  \<^item> Net: \<open>net.c\<close>, over the protocol library as a record of its entry points. Link: client and server
    put together: \<open>diary_link\<close> is what the client relies on, and the server model answering what the
    client model sends provides it, under the contract \<open>sealed_server\<close> (sealing is undone by
    unsealing and its text has no blank or newline; the engine does not fail). EndToEnd: what comes back
    of what was sent. Frames: the lines themselves, what the server parses of a request and that no stored
    text breaks the stream of replies.
  \<^item> Text: UTF-8 characters, the row and column of a buffer index (\<open>get_vpos\<close>), the index of a row and
    column (\<open>vpos_to_idx\<close>), the drawing loop and the row count, all from \<open>ui.c\<close>. TextProps, TextClaims: they
    agree with one another.
  \<^item> Editor: \<open>screen_editor\<close> with its buffer, its backup files and its call of the server. EditorProps,
    EditorSteps: the invariant, the effect of each class of keys, the locale \<open>typing\<close> of loops that take
    typed bytes. EditorClaims, EditorSaving: what a turn does to the text, to memory and to the server.
    EditorRefines: the editor as a list of characters with a cursor between two of them (\<open>zip_step\<close>), and
    the simulation of \<open>screen_editor\<close>'s block of bytes by it, for every sequence of inputs.
  \<^item> Screens: \<open>screen_view\<close>, \<open>screen_list\<close> and \<open>ui_run\<close>. ScreensClaims: their properties.
  \<^item> Session: \<open>screen_list\<close> with everything it opens, over the server of Link: one invariant (\<open>list_on\<close>,
    \<open>editor_on\<close>) ties the state of the screens to the rows of the user. Each input may cost one row, so the
    number of inputs left is the number of rows there must be room for. The keys are arbitrary:
    \<open>editor_calm\<close>, \<open>screen_calm\<close> and \<open>session_calm\<close> say of a run that no function key in it falls through the
    editor's branches to \<open>isprint\<close>, and a session is undefined behaviour exactly when this fails. \<open>posted\<close>
    follows the entry of one run of the editor: it is written to the server as one row at most.
  \<^item> Crowd: the client's calls interleaved with the events of all the other users on the same server, and
    the private diary (\<open>diary_does\<close>) that they implement.
  \<^item> ClientMain, ServerMain: the two programs with their options, \<open>read_stdin\<close>, \<open>mkdirs\<close> and
    \<open>ensure_db_dir\<close>. MainClaims: their properties.
  \<^item> Jni: the native functions of the Android application, with the arrays they make for their results
    (\<open>new_array\<close>, \<open>fill_array\<close>): nothing is written outside them, and what is sealed is unsealed.
  \<^item> This theory: the properties that cross all of the layers, from a key that is pressed to the row in
    the table.

  \<^bold>\<open>State and effects.\<close> State is passed explicitly. The database is an abstract value on which the engine's
  statements act; whether the handle is open is a bool. A screen's loop is a function of its state, the
  world (connection, files, last frame drawn, flow control of the terminal) and the input of the turn:
  the size of the window, the key, the clock, and what \<open>calloc\<close>, \<open>realloc\<close>, \<open>fopen\<close>, \<open>fwrite\<close> and \<open>remove\<close>
  answer. \<open>localtime\<close> is a parameter that gives the fields \<open>format_ts\<close> formats into its 32 bytes
  (\<open>strftime_minutes\<close>). A program that waits for a key is \<open>Next\<close> with no inputs left. A failing call of C is a value (-1, a
  null pointer as \<open>None\<close>); undefined behaviour is \<open>Undefined\<close>.

  \<^bold>\<open>Bounds.\<close> No definition has fuel: each loop is structural or has a measure (bytes left, inputs left).
  \<open>int\<close> and \<open>long\<close> are cut to 32 and 64 bits where the code converts (\<open>atoi\<close>, \<open>atol\<close>, the columns of a row,
  the POST date). Row ids are \<open>int\<close> in the code, so the end-to-end theorems ask for fewer than \<open>2 ^ 31 - 2\<close>
  insertions so far, and \<open>MAX_ENTRIES\<close> (1024) bounds a listing; beyond it the server hides the newest
  entries, which is a theorem of its own. \<open>PATH_MAX\<close> is a field of the operating system's record. Rows and columns of the screen and sizes of blocks are
  unbounded here; a buffer below 2 GiB keeps the code's \<open>int\<close> and \<open>size_t\<close> in range. \<open>qsort\<close> is insertion with the
  code's comparator, which is a total order on entries whose ids are not negative, so that entries with
  different ids have one sorted order only.

  \<^bold>\<open>Not modelled.\<close> The protocol library, libsodium and SQLite (parameters; what is assumed of them is in the
  locales, each with an interpretation that shows it can hold); the set-up of ncurses in
  \<open>ui_run\<close>, colours and rules, \<open>setlocale\<close> and the terminal settings other than flow control, since they carry no data; the
  pinning of Java arrays (it is taken to succeed); the messages \<open>storage_init\<close> and the key loader print; the Java code, the Python
  tests and the build files.
\<close>

text \<open>
  C2. End to end: opening a new entry, typing a text, pressing a save key and ESC leaves the editor with
  the terminal as before, no backup file behind, and on the server one more entry of the user, whose
  payload opens to exactly the typed bytes, dated by \<open>--entry-at\<close> or by the server's clock.
\<close>

theorem typed_entry_is_stored:
  assumes "sealed_server sq tables lib enc dec" and "ue_proto env = wire_proto lib sq enc dec"
    and "connected tables (wo_net w)" and "t_seq (tables (wire_db (wo_net w))) < 2 ^ 31 - 2"
    and "fits_long (ue_entry_at env)" and "format_ts env t \<noteq> None" and "in_calloc inp"
    and "list_all2 (\<lambda>inp c. input_types inp = Some c) keys cs"
    and "saves (in_key save)" and "in_remove save" and "in_key leave = Byte (CHR 0x1B)"
  shows "\<exists>w' b. screen_editor env inp 0 None t (keys @ save # leave # rest) w = (Leave w', rest) \<and>
    connected tables (wo_net w') \<and> dec b = Some cs \<and>
    tables (wire_db (wo_net w')) = tb_add (t_seq (tables (wire_db (wo_net w))) + 1) (wire_user (wo_net w))
      (if ue_entry_at env > 0 then ue_entry_at env else c_long (wire_now (wo_net w))) b
      (tables (wire_db (wo_net w))) \<and>
    wire_user (wo_net w') = wire_user (wo_net w) \<and>
    wo_ixon w' = wo_ixon w \<and> wo_disk w' = (wo_disk w)(''diary_new.tmp'' := None)"
  using assms by (rule typed_entry_core)

theorem typed_entry_is_stored_witness:
  "\<exists>w' b. screen_editor demo_env (demo_input ERR) 0 None 500
      (map (\<lambda>c. demo_input (Byte c)) ''hi'' @ demo_input (KEY_F 2) # demo_input (Byte (CHR 0x1B)) # []) demo_world =
      (Leave w', []) \<and> demo_dec b = Some ''hi'' \<and>
    rd_tables (wire_db (wo_net w')) = tb_add 3 ''a1'' 500 b demo_tables"
proof -
  have p: "ue_proto demo_env = demo_proto" "ue_entry_at demo_env = 0" "wo_net demo_world = demo_wire"
    "format_ts demo_env 500 \<noteq> None"
    by (simp_all add: demo_env_def demo_world_def format_ts_def)
  have d: "rd_tables demo_db = demo_tables" "t_seq demo_tables = 2" by (simp_all add: demo_db_def demo_tables_def)
  have "\<exists>w' b. screen_editor demo_env (demo_input ERR) 0 None 500
      (map (\<lambda>c. demo_input (Byte c)) ''hi'' @ demo_input (KEY_F 2) # demo_input (Byte (CHR 0x1B)) # []) demo_world =
      (Leave w', []) \<and>
    connected rd_tables (wo_net w') \<and> demo_dec b = Some ''hi'' \<and>
    rd_tables (wire_db (wo_net w')) = tb_add (t_seq (rd_tables (wire_db (wo_net demo_world))) + 1)
      (wire_user (wo_net demo_world)) (if ue_entry_at demo_env > 0 then ue_entry_at demo_env
        else c_long (wire_now (wo_net demo_world))) b (rd_tables (wire_db (wo_net demo_world))) \<and>
    wire_user (wo_net w') = wire_user (wo_net demo_world) \<and>
    wo_ixon w' = wo_ixon demo_world \<and> wo_disk w' = (wo_disk demo_world)(''diary_new.tmp'' := None)"
    by (rule typed_entry_is_stored[OF demo.sealed_server_axioms p(1) _ _ _ p(4) _ demo_typed])
       (simp_all add: p demo_connected fits_long_def demo_input_def)
  then obtain w' b where "screen_editor demo_env (demo_input ERR) 0 None 500
      (map (\<lambda>c. demo_input (Byte c)) ''hi'' @ demo_input (KEY_F 2) # demo_input (Byte (CHR 0x1B)) # []) demo_world =
      (Leave w', [])" "demo_dec b = Some ''hi''"
    "rd_tables (wire_db (wo_net w')) = tb_add 3 ''a1'' 500 b demo_tables"
    by (auto simp: p d c_long_def)
  then show ?thesis by blast
qed

text \<open>
  C12. A new entry appears in the list: pressing N in the list, typing a text, a save key and ESC comes back
  to a list that is newest first, has one entry more than the user had on the server, and contains the new
  id with exactly the typed text and the date it was given.
\<close>

theorem new_entry_is_listed:
  assumes "sealed_server sq tables lib enc dec" and "ue_proto env = wire_proto lib sq enc dec"
    and "connected tables (wo_net (snd s))" and "t_seq (tables (wire_db (wo_net (snd s)))) < 2 ^ 31 - 2"
    and "length (owned (wire_user (wo_net (snd s))) (tables (wire_db (wo_net (snd s))))) < MAX_ENTRIES"
    and "fits_long (ue_entry_at env)"
    and "format_ts env (if ue_entry_at env > 0 then ue_entry_at env else in_now inp) \<noteq> None"
    and "\<forall>e \<in> set (ls_entries (fst s)). format_ts env (de_timestamp e) \<noteq> None" and "in_calloc inp"
    and "in_key inp = Byte (CHR ''n'') \<or> in_key inp = Byte (CHR ''N'')"
    and "list_all2 (\<lambda>inp c. input_types inp = Some c) keys cs"
    and "saves (in_key save)" and "in_remove save" and "in_key leave = Byte (CHR 0x1B)"
  shows "\<exists>s'. list_turn env inp (keys @ save # leave # rest) s = (Next s', rest) \<and>
    sorted_wrt newer_first (ls_entries (fst s')) \<and>
    length (ls_entries (fst s')) =
      Suc (length (owned (wire_user (wo_net (snd s))) (tables (wire_db (wo_net (snd s)))))) \<and>
    \<lparr>de_id = t_seq (tables (wire_db (wo_net (snd s)))) + 1,
      de_timestamp = (if ue_entry_at env > 0 then ue_entry_at env else c_long (wire_now (wo_net (snd s)))),
      de_text = Some cs\<rparr> \<in> set (ls_entries (fst s'))"
proof -
  let ?net = "wo_net (snd s)"
  let ?u = "wire_user ?net" and ?t = "tables (wire_db ?net)"
  let ?d = "if ue_entry_at env > 0 then ue_entry_at env else c_long (wire_now ?net)"
  obtain fr where fr: "list_frame env inp (list_scroll inp (fst s)) (wo_frame (snd s)) = Some fr"
    using list_frame_shown[of "list_scroll inp (fst s)" env inp "wo_frame (snd s)"] assms(8)
    by (auto simp: list_scroll_simps)
  define st where "st = (list_scroll inp (fst s))\<lparr>ls_status := []\<rparr>"
  define w where "w = (snd s)\<lparr>wo_frame := fr\<rparr>"
  have w: "wo_net w = ?net" by (simp add: w_def)
  have turn: "list_turn env inp inps s = list_new env inp inps (st, w)" for inps
    using fr list_key_open(4)[OF assms(10)]
    by (cases s) (simp add: list_turn_def st_def w_def Let_def)
  obtain w1 b where w1: "screen_editor env inp 0 None (if ue_entry_at env > 0 then ue_entry_at env else in_now inp)
      (keys @ save # leave # rest) w = (Leave w1, rest)"
    and c: "connected tables (wo_net w1)" and b: "dec b = Some cs"
    and t1: "tables (wire_db (wo_net w1)) = tb_add (t_seq ?t + 1) ?u ?d b ?t"
    and u1: "wire_user (wo_net w1) = ?u"
    using typed_entry_core[OF assms(1,2) _ _ assms(6,7,9,11,12,13,14), of w rest] assms(3,4) unfolding w by blast
  have o: "owned (wire_user (wo_net w1)) (tables (wire_db (wo_net w1))) = owned ?u ?t @
      [\<lparr>row_id = t_seq ?t + 1, row_owner = ?u, row_ts = ?d, row_data = b\<rparr>]"
    by (simp add: owned_def t1 u1 tb_add_def)
  then have "length (owned (wire_user (wo_net w1)) (tables (wire_db (wo_net w1)))) \<le> MAX_ENTRIES"
    using assms(5) by simp
  then obtain es net where es: "net_get_entries (ue_proto env) (wo_net w1) = (Some es, net)"
    "mset es = mset (map (entry_of dec) (owned (wire_user (wo_net w1)) (tables (wire_db (wo_net w1)))))"
    "sorted_wrt newer_first es"
    unfolding assms(2) by (rule get_listing[OF assms(1) c])
  have r: "reload_entries env (st, w1) = (st\<lparr>ls_entries := es\<rparr>, w1\<lparr>wo_net := net\<rparr>)"
    by (simp add: reload_entries_def es(1))
  obtain s' where s': "list_turn env inp (keys @ save # leave # rest) s = (Next s', rest)"
    "ls_entries (fst s') = es"
    unfolding turn using w1 r by (auto simp: list_new_def after_screen_def)
  have "length es = Suc (length (owned ?u ?t))"
    using arg_cong[OF es(2), of size] o by simp
  moreover have "set es = entry_of dec ` set (owned (wire_user (wo_net w1)) (tables (wire_db (wo_net w1))))"
    using arg_cong[OF es(2), of set_mset] by simp
  then have "\<lparr>de_id = t_seq ?t + 1, de_timestamp = ?d, de_text = Some cs\<rparr> \<in> set es"
    using b unfolding o by (simp add: entry_of_def)
  ultimately show ?thesis using s' es(3) by (intro exI[of _ s']) simp
qed

theorem new_entry_is_listed_witness:
  "\<exists>s'. list_turn demo_env (demo_input (Byte (CHR ''n'')))
      (map (\<lambda>c. demo_input (Byte c)) ''hi'' @ demo_input (KEY_F 2) # esc # []) (demo_list, demo_world) = (Next s', []) \<and>
    \<lparr>de_id = 3, de_timestamp = 500, de_text = Some ''hi''\<rparr> \<in> set (ls_entries (fst s'))"
proof -
  have f: "\<exists>y. format_ts demo_env t = Some y" if "t < 2 ^ 55" for t
    using that by (simp add: format_ts_def demo_env_def)
  let ?s = "(demo_list, demo_world)"
  let ?keys = "map (\<lambda>c. demo_input (Byte c)) ''hi''"
  have "\<exists>s'. list_turn demo_env (demo_input (Byte (CHR ''n''))) (?keys @ demo_input (KEY_F 2) # esc # []) ?s =
      (Next s', []) \<and> sorted_wrt newer_first (ls_entries (fst s')) \<and>
    length (ls_entries (fst s')) =
      Suc (length (owned (wire_user (wo_net (snd ?s))) (rd_tables (wire_db (wo_net (snd ?s)))))) \<and>
    \<lparr>de_id = t_seq (rd_tables (wire_db (wo_net (snd ?s)))) + 1,
      de_timestamp = (if ue_entry_at demo_env > 0 then ue_entry_at demo_env
        else c_long (wire_now (wo_net (snd ?s)))),
      de_text = Some ''hi''\<rparr> \<in> set (ls_entries (fst s'))"
    by (rule new_entry_is_listed[OF demo.sealed_server_axioms demo_env_world(1) _ _ _ _ _ _ _ _ demo_typed])
       (simp_all add: demo_env_world demo_connected MAX_ENTRIES_def fits_long_def demo_input_def demo_list_def
         demo_entries_def f)
  then obtain s' where "list_turn demo_env (demo_input (Byte (CHR ''n''))) (?keys @ demo_input (KEY_F 2) # esc # [])
      ?s = (Next s', [])"
    "\<lparr>de_id = t_seq (rd_tables (wire_db (wo_net (snd ?s)))) + 1,
      de_timestamp = (if ue_entry_at demo_env > 0 then ue_entry_at demo_env
        else c_long (wire_now (wo_net (snd ?s)))),
      de_text = Some ''hi''\<rparr> \<in> set (ls_entries (fst s'))"
    by blast
  then show ?thesis by (intro exI[of _ s']) (simp add: demo_env_world c_long_def)
qed

text \<open>
  C21. \<open>--post\<close> end to end: with keys, a connection and memory, the client ends with code 0 and prints
  exactly the id of the new entry; on the server the user has one more entry, whose payload opens to
  standard input up to its first NUL byte, dated by \<open>--entry-at\<close> if that was given.
\<close>

theorem post_mode_stores_stdin:
  assumes "sealed_server sq tables lib enc dec" and "ue_proto env = wire_proto lib sq enc dec"
    and "cl_init cl = 0" and "client_options dl prog opts default_opts = Inr co" and "co_post co"
    and "cl_load_keys cl (co_auth co) (co_enc co) = 0"
    and "cl_connect cl (co_auth co) (co_enc co) (co_host co) (co_port co) (wo_net w) = (0, net)"
    and "connected tables net" and "t_seq (tables (wire_db net)) < 2 ^ 31 - 2" and "fits_long (co_entry_at co)"
    and "\<forall>k. al k \<noteq> None" and "cl_close cl = (\<lambda>n. n)"
  shows "\<exists>err w' b. client_main cl dl env prog opts al input inps w =
      Leave ((0, show_int (t_seq (tables (wire_db net)) + 1) @ nl, err), w') \<and>
    dec b = Some (c_str input) \<and>
    tables (wire_db (wo_net w')) = tb_add (t_seq (tables (wire_db net)) + 1) (wire_user net)
      (if co_entry_at co > 0 then co_entry_at co else c_long (wire_now net)) b (tables (wire_db net))"
  using assms by (rule post_mode_core)

theorem post_mode_stores_stdin_witness:
  "\<exists>err w' b. client_main demo_client demo_dates demo_env ''diary'' [OPT_ENTRY_AT ''1970-01-02 00:00'', OPT_POST]
      (\<lambda>_. Some (\<lambda>_. CHR ''?'')) ''dear diary'' [] demo_world =
      Leave ((0, show_int (t_seq (rd_tables (wire_db demo_wire)) + 1) @ nl, err), w') \<and>
    demo_dec b = Some (c_str ''dear diary'') \<and>
    rd_tables (wire_db (wo_net w')) = tb_add (t_seq (rd_tables (wire_db demo_wire)) + 1) (wire_user demo_wire)
      86400 b (rd_tables (wire_db demo_wire))"
proof -
  let ?co = "default_opts\<lparr>co_entry_at := 86400, co_post := True\<rparr>"
  have o: "client_options demo_dates ''diary'' [OPT_ENTRY_AT ''1970-01-02 00:00'', OPT_POST] default_opts = Inr ?co"
    by (simp add: parse_entry_at_def demo_dates_def)
  show ?thesis
    using post_mode_stores_stdin[OF demo.sealed_server_axioms demo_env_world(1) _ o, of demo_client demo_world
        demo_wire "\<lambda>_. Some (\<lambda>_. CHR ''?'')" "''dear diary''" "[]"]
    by (simp add: demo_client_def demo_env_world demo_connected fits_long_def)
qed

end
